theory Spec2Isabelle
  imports Main "HOL-Library.Sublist"
begin

section \<open>Exceptions, observable events and the browser surface\<close>

text \<open>
  The scraper drives a remote browser through Selenium.  Every call on the driver or on
  an element may raise; the source distinguishes \<^verbatim>\<open>TimeoutException\<close> from every
  other subclass of \<^verbatim>\<open>Exception\<close> (only \<^verbatim>\<open>_find_results_container\<close> catches the
  former alone), so two exception values suffice.  \<^verbatim>\<open>BaseException\<close>s that are not
  \<^verbatim>\<open>Exception\<close>s (a keyboard interrupt) are outside the model.
\<close>

datatype exn = TimeoutException | OtherException

datatype By = CSS_SELECTOR | XPATH | ID | TAG_NAME

type_synonym element = nat

text \<open>
  What a run does is recorded as a list of events, in the order of the calls.
  \<open>Nav\<close> is a call of \<^verbatim>\<open>driver.get\<close>, \<open>Click\<close> a completed \<^verbatim>\<open>elem.click()\<close> on the
  element found by the given locator; the others mark the entry of a source function
  (\<open>LoginCall\<close>, \<open>RecoveryCall\<close> with its \<^verbatim>\<open>attempts\<close>, \<open>ReadResults\<close> for \<^verbatim>\<open>harvest\<close>,
  \<open>ScrapeCall\<close>), the value returned by \<^verbatim>\<open>is_authwall_modal\<close> (\<open>OverlayCheck\<close>), an
  execution of \<^verbatim>\<open>links.add\<close> (\<open>LinkAdded\<close>), the entry of the body of the pagination
  loop (\<open>PageAttempt\<close>), the escape key sent as last resort and \<^verbatim>\<open>driver.quit\<close>.
\<close>

datatype event =
    Nav string
  | Click By string
  | LoginCall
  | OverlayCheck bool
  | RecoveryCall int
  | ReadResults
  | LinkAdded string
  | PageAttempt int
  | ScrapeCall string
  | EscapeSent
  | QuitCall

text \<open>
  The driver is a record of the Selenium operations the source uses, over an arbitrary
  browser state \<open>'s\<close>.  Each operation returns its value or the exception it raised,
  and the state the browser is in afterwards.  Time-outs are seconds, sleeps are
  milliseconds.  A scope of \<open>None\<close> is the driver itself, \<open>Some e\<close> the element \<open>e\<close>.
\<close>

record 's driver =
  drv_get :: "string \<Rightarrow> 's \<Rightarrow> (exn + unit) \<times> 's"
  wait_clickable :: "By \<Rightarrow> string \<Rightarrow> nat \<Rightarrow> 's \<Rightarrow> (exn + element) \<times> 's"
  wait_presence :: "element option \<Rightarrow> By \<Rightarrow> string \<Rightarrow> nat \<Rightarrow> 's \<Rightarrow> (exn + element) \<times> 's"
  wait_visible :: "By \<Rightarrow> string \<Rightarrow> nat \<Rightarrow> 's \<Rightarrow> (exn + element) \<times> 's"
  scroll_into_view :: "element \<Rightarrow> 's \<Rightarrow> (exn + unit) \<times> 's"
  elem_click :: "element \<Rightarrow> 's \<Rightarrow> (exn + unit) \<times> 's"
  send_keys :: "element \<Rightarrow> string \<Rightarrow> 's \<Rightarrow> (exn + unit) \<times> 's"
  elem_text :: "element \<Rightarrow> 's \<Rightarrow> (exn + string) \<times> 's"
  find_elements :: "element option \<Rightarrow> By \<Rightarrow> string \<Rightarrow> 's \<Rightarrow> (exn + element list) \<times> 's"
  find_element :: "By \<Rightarrow> string \<Rightarrow> 's \<Rightarrow> (exn + element) \<times> 's"
  get_attribute :: "element \<Rightarrow> string \<Rightarrow> 's \<Rightarrow> (exn + string option) \<times> 's"
  page_source :: "'s \<Rightarrow> (exn + string option) \<times> 's"
  current_url :: "'s \<Rightarrow> (exn + string) \<times> 's"
  time_sleep :: "nat \<Rightarrow> 's \<Rightarrow> 's"
  drv_quit :: "'s \<Rightarrow> (exn + unit) \<times> 's"

section \<open>Programs: state, exceptions and the event log\<close>

type_synonym ('s, 'a) prog = "'s \<Rightarrow> (exn + 'a) \<times> 's \<times> event list"

definition ret :: "'a \<Rightarrow> ('s, 'a) prog" where
  "ret a = (\<lambda>s. (Inr a, s, []))"

definition raise :: "exn \<Rightarrow> ('s, 'a) prog" where
  "raise e = (\<lambda>s. (Inl e, s, []))"

definition emit :: "event \<Rightarrow> ('s, unit) prog" where
  "emit ev = (\<lambda>s. (Inr (), s, [ev]))"

definition prim :: "('s \<Rightarrow> (exn + 'a) \<times> 's) \<Rightarrow> ('s, 'a) prog" where
  "prim f = (\<lambda>s. case f s of (r, s1) \<Rightarrow> (r, s1, []))"

definition bnd :: "('s, 'a) prog \<Rightarrow> ('a \<Rightarrow> ('s, 'b) prog) \<Rightarrow> ('s, 'b) prog" where
  "bnd m f = (\<lambda>s. case m s of
      (Inl e, s1, t1) \<Rightarrow> (Inl e, s1, t1)
    | (Inr a, s1, t1) \<Rightarrow> (case f a s1 of (r, s2, t2) \<Rightarrow> (r, s2, t1 @ t2)))"

text \<open>\<^verbatim>\<open>try: m  except Exception as e: h e\<close>\<close>

definition try_except :: "('s, 'a) prog \<Rightarrow> (exn \<Rightarrow> ('s, 'a) prog) \<Rightarrow> ('s, 'a) prog" where
  "try_except m h = (\<lambda>s. case m s of
      (Inl e, s1, t1) \<Rightarrow> (case h e s1 of (r, s2, t2) \<Rightarrow> (r, s2, t1 @ t2))
    | (Inr a, s1, t1) \<Rightarrow> (Inr a, s1, t1))"

text \<open>\<^verbatim>\<open>try: m  finally: c\<close>: \<open>c\<close> runs on every path; an exception of \<open>c\<close> replaces the
  outcome of \<open>m\<close>.\<close>

definition try_finally :: "('s, 'a) prog \<Rightarrow> ('s, unit) prog \<Rightarrow> ('s, 'a) prog" where
  "try_finally m c = (\<lambda>s. case m s of (r, s1, t1) \<Rightarrow>
     (case c s1 of
        (Inl e, s2, t2) \<Rightarrow> (Inl e, s2, t1 @ t2)
      | (Inr u, s2, t2) \<Rightarrow> (r, s2, t1 @ t2)))"

definition outcome :: "(exn + 'a) \<times> 's \<times> event list \<Rightarrow> exn + 'a" where
  "outcome p = fst p"

definition events :: "(exn + 'a) \<times> 's \<times> event list \<Rightarrow> event list" where
  "events p = snd (snd p)"

definition nav :: "'s driver \<Rightarrow> string \<Rightarrow> ('s, unit) prog" where
  "nav d u = bnd (emit (Nav u)) (\<lambda>_. prim (drv_get d u))"

definition sleep :: "'s driver \<Rightarrow> nat \<Rightarrow> ('s, unit) prog" where
  "sleep d ms = (\<lambda>s. (Inr (), time_sleep d ms s, []))"

section \<open>Strings\<close>

text \<open>
  Strings are lists of 8-bit characters, each read as the code point of that number
  (0 to 255); code points from 256 on are outside the model.  \<^verbatim>\<open>str.strip()\<close> removes
  white space at both ends; among these code points Python's white space is the tab to
  the carriage return (9 to 13), the four separators (28 to 31), the space (32), the
  next line (U+0085) and the no-break space (U+00A0).
\<close>

definition is_space :: "char \<Rightarrow> bool" where
  "is_space c = (let n = (of_char c :: nat) in
     (9 \<le> n \<and> n \<le> 13) \<or> (28 \<le> n \<and> n \<le> 32) \<or> n = 0x85 \<or> n = 0xA0)"

definition strip :: "string \<Rightarrow> string" where
  "strip t = rev (dropWhile is_space (rev (dropWhile is_space t)))"

text \<open>\<^verbatim>\<open>href.split("?")[0]\<close>: what precedes the first question mark.\<close>

definition split_query :: "string \<Rightarrow> string" where
  "split_query href = takeWhile (\<lambda>c. c \<noteq> CHR ''?'') href"

text \<open>Python's truth value of an \<^verbatim>\<open>Optional[str]\<close>: \<^verbatim>\<open>None\<close> and \<^verbatim>\<open>""\<close> are false.\<close>

definition truthy :: "string option \<Rightarrow> bool" where
  "truthy x = (case x of None \<Rightarrow> False | Some t \<Rightarrow> t \<noteq> [])"

section \<open>Utilities: \<^verbatim>\<open>try_click\<close> and \<^verbatim>\<open>first_text\<close>\<close>

text \<open>The \<^verbatim>\<open>wait\<close> argument is the \<^verbatim>\<open>WebDriverWait\<close> of \<^verbatim>\<open>main\<close>, given by its time-out.\<close>

definition try_click :: "'s driver \<Rightarrow> nat \<Rightarrow> By \<Rightarrow> string \<Rightarrow> nat \<Rightarrow> ('s, bool) prog" where
  "try_click d wait b sel timeout =
     try_except
       (bnd (prim (wait_clickable d b sel timeout)) (\<lambda>elem.
        bnd (prim (scroll_into_view d elem)) (\<lambda>_.
        bnd (prim (elem_click d elem)) (\<lambda>_.
        bnd (emit (Click b sel)) (\<lambda>_.
        ret True)))))
       (\<lambda>_. ret False)"

fun first_text :: "'s driver \<Rightarrow> element option \<Rightarrow> (By \<times> string) list \<Rightarrow> nat \<Rightarrow> ('s, string option) prog" where
  "first_text d scope [] timeout = ret None"
| "first_text d scope ((b, sel) # selectors) timeout =
     bnd (try_except
            (bnd (prim (wait_presence d scope b sel timeout)) (\<lambda>elem.
             bnd (prim (elem_text d elem)) (\<lambda>t.
             ret (if strip t \<noteq> [] then Some (strip t) else None))))
            (\<lambda>_. ret None))
         (\<lambda>found. case found of
            Some txt \<Rightarrow> ret (Some txt)
          | None \<Rightarrow> first_text d scope selectors timeout)"

section \<open>Job page: \<^verbatim>\<open>scrape_job\<close>\<close>

record job_record =
  job_title :: "string option"
  company_name :: "string option"
  company_location :: "string option"
  work_method :: "string option"
  post_date :: "string option"
  work_time :: "string option"
  job_description :: "string option"
  url :: string

text \<open>The six values read inside the top card, under the names of the source's locals.\<close>

record top_card =
  title :: "string option"
  company :: "string option"
  location :: "string option"
  workplace :: "string option"
  posted :: "string option"
  schedule :: "string option"

definition desc_selector :: string where
  "desc_selector = ''.jobs-description__content .jobs-box__html-content''"

text \<open>Lines 257 to 271: navigation, the two optional clicks, the wait for the top card and
  the six fall-back chains.\<close>

definition read_top_card :: "'s driver \<Rightarrow> nat \<Rightarrow> string \<Rightarrow> ('s, top_card) prog" where
  "read_top_card d wait u =
     bnd (nav d u) (\<lambda>_.
     bnd (try_click d wait CSS_SELECTOR ''.show-more-less-html__button'' 4) (\<lambda>_.
     bnd (try_click d wait CSS_SELECTOR ''.artdeco-card__actions button'' 3) (\<lambda>_.
     bnd (prim (wait_presence d None CSS_SELECTOR ''.jobs-unified-top-card'' 8)) (\<lambda>top.
     bnd (first_text d (Some top)
            [(CSS_SELECTOR, ''h1''), (CSS_SELECTOR, ''.jobs-unified-top-card__job-title'')] 6) (\<lambda>t.
     bnd (first_text d (Some top)
            [(CSS_SELECTOR, ''a.jobs-unified-top-card__company-name''),
             (CSS_SELECTOR, ''.jobs-unified-top-card__company-name'')] 6) (\<lambda>c.
     bnd (first_text d (Some top)
            [(CSS_SELECTOR, ''.jobs-unified-top-card__bullet''),
             (CSS_SELECTOR, ''[data-test-topcard-location]'')] 6) (\<lambda>l.
     bnd (first_text d (Some top)
            [(CSS_SELECTOR, ''.jobs-unified-top-card__workplace-type'')] 6) (\<lambda>w.
     bnd (first_text d (Some top)
            [(CSS_SELECTOR, ''.jobs-unified-top-card__posted-date''),
             (CSS_SELECTOR, ''[data-test-posted-date]'')] 6) (\<lambda>p.
     bnd (first_text d (Some top)
            [(CSS_SELECTOR, ''.jobs-unified-top-card__job-insight'')] 6) (\<lambda>sc.
     ret \<lparr>title = t, company = c, location = l, workplace = w, posted = p,
          schedule = sc\<rparr>))))))))))"

text \<open>Lines 273 and 274: the description block, looked up on the whole page.\<close>

definition read_description :: "'s driver \<Rightarrow> ('s, string option) prog" where
  "read_description d =
     bnd (prim (find_elements d None CSS_SELECTOR desc_selector)) (\<lambda>desc_container.
     case desc_container of
       [] \<Rightarrow> ret None
     | e # _ \<Rightarrow> bnd (prim (elem_text d e)) (\<lambda>t. ret (Some (strip t))))"

text \<open>Lines 276 to 288: the validity check and the dictionary.\<close>

definition make_record :: "string \<Rightarrow> top_card \<Rightarrow> string option \<Rightarrow> job_record option" where
  "make_record u tc description =
     (if \<not> truthy (title tc) \<and> \<not> truthy description then None
      else Some \<lparr>job_title = title tc, company_name = company tc,
                 company_location = location tc, work_method = workplace tc,
                 post_date = posted tc, work_time = schedule tc,
                 job_description = description, url = u\<rparr>)"

definition scrape_job_try :: "'s driver \<Rightarrow> nat \<Rightarrow> string \<Rightarrow> ('s, job_record option) prog" where
  "scrape_job_try d wait u =
     bnd (read_top_card d wait u) (\<lambda>tc.
     bnd (read_description d) (\<lambda>description.
     ret (make_record u tc description)))"

definition scrape_job :: "'s driver \<Rightarrow> nat \<Rightarrow> string \<Rightarrow> ('s, job_record option) prog" where
  "scrape_job d wait u =
     bnd (emit (ScrapeCall u)) (\<lambda>_.
     try_except (scrape_job_try d wait u)
       (\<lambda>e. case e of TimeoutException \<Rightarrow> ret None | OtherException \<Rightarrow> ret None))"

section \<open>Authentication and the sign-in overlay\<close>

definition login_url :: string where
  "login_url = ''https://www.linkedin.com/login''"

definition consent_selectors :: "string list" where
  "consent_selectors =
     [''//button[.//span[contains(., 'Accept') or contains(., 'Agree')]]'',
      ''//button[contains(., 'Accept')]'',
      ''//button[contains(., 'I agree')]'',
      ''button[aria-label*='cookie']'',
      ''button[aria-label*='Cookie']'',
      ''button[title*='Accept']'']"

text \<open>The loop of \<^verbatim>\<open>login\<close> over the consent buttons, left at the first click that works.\<close>

fun dismiss_consent :: "'s driver \<Rightarrow> nat \<Rightarrow> string list \<Rightarrow> ('s, unit) prog" where
  "dismiss_consent d wait [] = ret ()"
| "dismiss_consent d wait (sel # sels) =
     bnd (try_click d wait XPATH sel 2) (\<lambda>x.
     if x then ret ()
     else bnd (try_click d wait CSS_SELECTOR sel 2) (\<lambda>c.
          if c then ret () else dismiss_consent d wait sels))"

definition login :: "'s driver \<Rightarrow> nat \<Rightarrow> string \<Rightarrow> string \<Rightarrow> ('s, unit) prog" where
  "login d wait user pwd =
     bnd (emit LoginCall) (\<lambda>_.
     bnd (nav d login_url) (\<lambda>_.
     bnd (dismiss_consent d wait consent_selectors) (\<lambda>_.
     bnd (prim (wait_visible d ID ''username'' wait)) (\<lambda>u.
     bnd (prim (send_keys d u user)) (\<lambda>_.
     bnd (prim (wait_visible d ID ''password'' wait)) (\<lambda>p.
     bnd (prim (send_keys d p pwd)) (\<lambda>_.
     bnd (try_click d wait XPATH ''//button[@type='submit']'' 10) (\<lambda>_.
     ret ()))))))))"

definition is_authwall_modal :: "'s driver \<Rightarrow> ('s, bool) prog" where
  "is_authwall_modal d =
     bnd (bnd (try_except
                 (bnd (prim (find_elements d None XPATH
                         ''//h2[contains(., 'Sign in to view more jobs')]'')) (\<lambda>h.
                  ret (h \<noteq> [])))
                 (\<lambda>_. ret False)) (\<lambda>heading.
          if heading then ret True
          else try_except
                 (bnd (prim (find_elements d None CSS_SELECTOR
                         ''.artdeco-modal, .sign-in-modal'')) (\<lambda>modals.
                  ret (length modals > 0)))
                 (\<lambda>_. ret False))) (\<lambda>r.
     bnd (emit (OverlayCheck r)) (\<lambda>_.
     ret r))"

definition dismiss_selectors :: "string list" where
  "dismiss_selectors =
     [''button[aria-label='Dismiss']'', ''button[aria-label='Close']'',
      ''.artdeco-modal__dismiss'']"

text \<open>Lines 161 to 165.  The result is \<open>True\<close> when the function returns from inside the
  loop: a close button was clicked and the overlay was gone at the check after it.\<close>

fun dismiss_loop :: "'s driver \<Rightarrow> nat \<Rightarrow> string list \<Rightarrow> ('s, bool) prog" where
  "dismiss_loop d wait [] = ret False"
| "dismiss_loop d wait (sel # sels) =
     bnd (try_click d wait CSS_SELECTOR sel 2) (\<lambda>c.
     if c then
       bnd (sleep d 500) (\<lambda>_.
       bnd (is_authwall_modal d) (\<lambda>m.
       if \<not> m then ret True else dismiss_loop d wait sels))
     else dismiss_loop d wait sels)"

text \<open>Lines 168 to 171: the sign-in button, or else the sign-in anchor.\<close>

definition click_sign_in :: "'s driver \<Rightarrow> nat \<Rightarrow> ('s, bool) prog" where
  "click_sign_in d wait =
     bnd (try_click d wait XPATH ''//button[contains(., 'Sign in')]'' 5) (\<lambda>clicked.
     if \<not> clicked then try_click d wait XPATH ''//a[contains(., 'Sign in')]'' 5
     else ret clicked)"

text \<open>\<^verbatim>\<open>Keys.ESCAPE\<close> is the one-character string of the code point U+E00C, which is
  beyond the code points of the model: it is kept as the three bytes of its UTF-8 form.
  The string is only handed to \<^verbatim>\<open>send_keys\<close>.\<close>

definition Keys_ESCAPE :: string where
  "Keys_ESCAPE = [CHR 0xEE, CHR 0x80, CHR 0x8C]"

function clear_signin_overlay_or_reauth ::
  "'s driver \<Rightarrow> nat \<Rightarrow> string \<Rightarrow> string \<Rightarrow> string \<Rightarrow> int \<Rightarrow> ('s, unit) prog" where
  "clear_signin_overlay_or_reauth d wait search_url user pwd attempts =
     bnd (emit (RecoveryCall attempts)) (\<lambda>_.
     bnd (is_authwall_modal d) (\<lambda>m.
     if \<not> m then ret ()
     else
       bnd (dismiss_loop d wait dismiss_selectors) (\<lambda>gone.
       if gone then ret ()
       else
         bnd (click_sign_in d wait) (\<lambda>clicked.
         if clicked then
           bnd (login d wait user pwd) (\<lambda>_.
           bnd (nav d search_url) (\<lambda>_.
           bnd (sleep d 1000) (\<lambda>_.
           if attempts > 0 then
             bnd (is_authwall_modal d) (\<lambda>again.
             if again
             then clear_signin_overlay_or_reauth d wait search_url user pwd (attempts - 1)
             else ret ())
           else ret ())))
         else
           try_except
             (bnd (prim (find_element d TAG_NAME ''body'')) (\<lambda>body.
              bnd (prim (send_keys d body Keys_ESCAPE)) (\<lambda>_.
              emit EscapeSent)))
             (\<lambda>_. ret ())))))"
  by pat_completeness auto
termination
  by (relation "measure (\<lambda>(d, wait, search_url, user, pwd, attempts). nat attempts)") auto

section \<open>Results: \<^verbatim>\<open>collect_links\<close>\<close>

text \<open>\<^verbatim>\<open>except TimeoutException\<close>: every other exception passes through.\<close>

definition except_timeout :: "('s, 'a) prog \<Rightarrow> ('s, 'a) prog \<Rightarrow> ('s, 'a) prog" where
  "except_timeout m h = (\<lambda>s. case m s of
      (Inl e, s1, t1) \<Rightarrow>
        (case e of
           TimeoutException \<Rightarrow> (case h s1 of (r, s2, t2) \<Rightarrow> (r, s2, t1 @ t2))
         | OtherException \<Rightarrow> (Inl e, s1, t1))
    | (Inr a, s1, t1) \<Rightarrow> (Inr a, s1, t1))"

definition candidates :: "string list" where
  "candidates =
     [''ul.jobs-search__results-list'',
      ''.jobs-search-results__list'',
      ''div.jobs-search-two-pane__results-list'',
      ''[data-test-reusables-search__results-list]'',
      ''[data-test-search-results] ul'']"

fun find_results_container :: "'s driver \<Rightarrow> nat \<Rightarrow> string list \<Rightarrow> ('s, element option) prog" where
  "find_results_container d wait [] = ret None"
| "find_results_container d wait (sel # sels) =
     except_timeout
       (bnd (prim (wait_presence d None CSS_SELECTOR sel 10)) (\<lambda>e. ret (Some e)))
       (find_results_container d wait sels)"

definition view_prefix :: string where
  "view_prefix = ''https://www.linkedin.com/jobs/view''"

text \<open>
  The set \<^verbatim>\<open>links\<close> is kept as a list without repetition: \<^verbatim>\<open>links.add\<close> is
  \<^const>\<open>List.insert\<close> and \<^verbatim>\<open>list(links)\<close> is the list itself.  Python fixes no
  order for the elements of a set; the order of the list carries no meaning here.
  Lines 219 to 222, the loop over the anchors:
\<close>

fun add_links :: "'s driver \<Rightarrow> element list \<Rightarrow> string list \<Rightarrow> ('s, string list) prog" where
  "add_links d [] links = ret links"
| "add_links d (a # anchors) links =
     bnd (prim (get_attribute d a ''href'')) (\<lambda>h.
     if prefix view_prefix (strip (case h of None \<Rightarrow> [] | Some v \<Rightarrow> v))
     then bnd (emit (LinkAdded (split_query (strip (case h of None \<Rightarrow> [] | Some v \<Rightarrow> v))))) (\<lambda>_.
          add_links d anchors
            (List.insert (split_query (strip (case h of None \<Rightarrow> [] | Some v \<Rightarrow> v))) links))
     else add_links d anchors links)"

definition harvest :: "'s driver \<Rightarrow> nat \<Rightarrow> string list \<Rightarrow> ('s, string list) prog" where
  "harvest d wait links =
     bnd (emit ReadResults) (\<lambda>_.
     bnd (find_results_container d wait candidates) (\<lambda>container.
     case container of
       None \<Rightarrow>
         bnd (prim (page_source d)) (\<lambda>_.
         bnd (prim (current_url d)) (\<lambda>_.
         raise TimeoutException))
     | Some c \<Rightarrow>
         bnd (prim (find_elements d (Some c) CSS_SELECTOR ''a[href*='/jobs/view/']'')) (\<lambda>a1.
         bnd (prim (find_elements d (Some c) CSS_SELECTOR ''li a[data-job-id]'')) (\<lambda>a2.
         bnd (prim (find_elements d (Some c) CSS_SELECTOR ''a.job-card-container__link'')) (\<lambda>a3.
         add_links d (a1 @ a2 @ a3) links)))))"

text \<open>\<^verbatim>\<open>str(page)\<close> for the f-strings of the pagination selectors.\<close>

function str_nat :: "nat \<Rightarrow> string" where
  "str_nat n = (if n < 10 then [char_of (48 + n)]
                else str_nat (n div 10) @ [char_of (48 + n mod 10)])"
  by pat_completeness auto
termination
  by (relation "measure (\<lambda>n. n)") auto

definition str_int :: "int \<Rightarrow> string" where
  "str_int i = (if i < 0 then CHR ''-'' # str_nat (nat (- i)) else str_nat (nat i))"

definition page_selectors :: "int \<Rightarrow> string list" where
  "page_selectors page =
     [''button[aria-label='Page '' @ str_int page @ [CHR 0x27] @ '']'',
      ''li.artdeco-pagination__indicator button[aria-label='Page '' @ str_int page
        @ [CHR 0x27] @ '']'']"

text \<open>Lines 230 to 242: the inner loop, whose value is the flag \<^verbatim>\<open>clicked\<close>.\<close>

fun click_page :: "'s driver \<Rightarrow> nat \<Rightarrow> string list \<Rightarrow> ('s, bool) prog" where
  "click_page d wait [] = ret False"
| "click_page d wait (sel # sels) =
     bnd (try_except
            (bnd (prim (wait_clickable d CSS_SELECTOR sel 5)) (\<lambda>btn.
             bnd (prim (scroll_into_view d btn)) (\<lambda>_.
             bnd (prim (elem_click d btn)) (\<lambda>_.
             bnd (emit (Click CSS_SELECTOR sel)) (\<lambda>_.
             ret True)))))
            (\<lambda>_. ret False)) (\<lambda>clicked.
     if clicked then ret True else click_page d wait sels)"

text \<open>\<^verbatim>\<open>range(lo, hi)\<close> on Python's integers.\<close>

definition py_range :: "int \<Rightarrow> int \<Rightarrow> int list" where
  "py_range lo hi = [lo..hi - 1]"

text \<open>Lines 229 to 248: the loop over the page numbers, left by \<^verbatim>\<open>break\<close> when no
  selector could be clicked.\<close>

fun paginate :: "'s driver \<Rightarrow> nat \<Rightarrow> int list \<Rightarrow> string list \<Rightarrow> ('s, string list) prog" where
  "paginate d wait [] links = ret links"
| "paginate d wait (page # pages) links =
     bnd (emit (PageAttempt page)) (\<lambda>_.
     bnd (click_page d wait (page_selectors page)) (\<lambda>clicked.
     if \<not> clicked then ret links
     else
       bnd (sleep d 1200) (\<lambda>_.
       bnd (harvest d wait links) (\<lambda>links'.
       paginate d wait pages links'))))"

definition collect_links :: "'s driver \<Rightarrow> nat \<Rightarrow> int \<Rightarrow> ('s, string list) prog" where
  "collect_links d wait pages =
     bnd (harvest d wait []) (\<lambda>links.
     paginate d wait (py_range 2 (max 2 (pages + 1))) links)"

section \<open>Main\<close>

text \<open>Lines 324 to 330: one \<^verbatim>\<open>scrape_job\<close> for each link, the record kept when there
  is one.\<close>

fun scrape_all :: "'s driver \<Rightarrow> nat \<Rightarrow> string list \<Rightarrow> job_record list \<Rightarrow> ('s, job_record list) prog" where
  "scrape_all d wait [] records = ret records"
| "scrape_all d wait (link # links) records =
     bnd (scrape_job d wait link) (\<lambda>rec.
     bnd (sleep d 600) (\<lambda>_.
     scrape_all d wait links (case rec of Some r \<Rightarrow> records @ [r] | None \<Rightarrow> records)))"

text \<open>
  The body of the \<^verbatim>\<open>try\<close> of \<^verbatim>\<open>main\<close> up to the list \<^verbatim>\<open>records\<close>.  The command
  line, the credentials and the search URL built from them arrive as arguments; writing
  the CSV file is left to the caller.
\<close>

definition main_try :: "'s driver \<Rightarrow> nat \<Rightarrow> string \<Rightarrow> string \<Rightarrow> string \<Rightarrow> int \<Rightarrow> ('s, job_record list) prog" where
  "main_try d wait search_url user pwd pages =
     bnd (login d wait user pwd) (\<lambda>_.
     bnd (nav d search_url) (\<lambda>_.
     bnd (sleep d 1000) (\<lambda>_.
     bnd (clear_signin_overlay_or_reauth d wait search_url user pwd 1) (\<lambda>_.
     bnd (collect_links d wait pages) (\<lambda>links.
     scrape_all d wait links [])))))"

definition main :: "'s driver \<Rightarrow> string \<Rightarrow> string \<Rightarrow> string \<Rightarrow> int \<Rightarrow> ('s, job_record list) prog" where
  "main d search_url user pwd pages =
     try_finally (main_try d 20 search_url user pwd pages)
       (bnd (emit QuitCall) (\<lambda>_. prim (drv_quit d)))"

section \<open>Reading the event log\<close>

text \<open>The URLs passed to \<^verbatim>\<open>links.add\<close>, in order.\<close>

fun added_links :: "event list \<Rightarrow> string list" where
  "added_links [] = []"
| "added_links (LinkAdded u # tr) = u # added_links tr"
| "added_links (e # tr) = added_links tr"

text \<open>One entry for each page visited (each \<^verbatim>\<open>harvest\<close>): the URLs added while
  reading that page.\<close>

fun per_page :: "event list \<Rightarrow> string list list" where
  "per_page [] = []"
| "per_page (e # tr) =
     (if e = ReadResults
      then added_links (takeWhile (\<lambda>x. x \<noteq> ReadResults) tr) # per_page tr
      else per_page tr)"

definition is_recovery_call :: "event \<Rightarrow> bool" where
  "is_recovery_call e = (case e of RecoveryCall n \<Rightarrow> True | _ \<Rightarrow> False)"

definition is_overlay_check :: "event \<Rightarrow> bool" where
  "is_overlay_check e = (case e of OverlayCheck b \<Rightarrow> True | _ \<Rightarrow> False)"

definition is_page_attempt :: "event \<Rightarrow> bool" where
  "is_page_attempt e = (case e of PageAttempt n \<Rightarrow> True | _ \<Rightarrow> False)"


definition is_link_added :: "event \<Rightarrow> bool" where
  "is_link_added e = (case e of LinkAdded u \<Rightarrow> True | _ \<Rightarrow> False)"

definition is_click :: "event \<Rightarrow> bool" where
  "is_click e = (case e of Click b sel \<Rightarrow> True | _ \<Rightarrow> False)"

text \<open>No results are read before the first recovery call.\<close>

definition reads_guarded :: "event list \<Rightarrow> bool" where
  "reads_guarded t =
     (filter (\<lambda>e. e = ReadResults) (takeWhile (\<lambda>e. \<not> is_recovery_call e) t) = [])"

text \<open>
  Recovery before every read: scanning the log, each \<open>ReadResults\<close> must have been
  preceded by a \<open>RecoveryCall\<close> made after the previous \<open>ReadResults\<close> (after the start
  of the run, for the first one).  The flag says that such a call has been seen.
\<close>

fun recovery_before_reads :: "bool \<Rightarrow> event list \<Rightarrow> bool" where
  "recovery_before_reads armed [] = True"
| "recovery_before_reads armed (RecoveryCall n # tr) = recovery_before_reads True tr"
| "recovery_before_reads armed (ReadResults # tr) = (armed \<and> recovery_before_reads False tr)"
| "recovery_before_reads armed (e # tr) = recovery_before_reads armed tr"

text \<open>Properties of all runs of a program, used to compose facts along \<^const>\<open>bnd\<close>.\<close>

definition emits :: "(event \<Rightarrow> bool) \<Rightarrow> ('s, 'a) prog \<Rightarrow> bool" where
  "emits P m = (\<forall>s. list_all P (events (m s)))"

definition count_le :: "(event \<Rightarrow> bool) \<Rightarrow> nat \<Rightarrow> ('s, 'a) prog \<Rightarrow> bool" where
  "count_le P k m = (\<forall>s. length (filter P (events (m s))) \<le> k)"

definition no_raise :: "('s, 'a) prog \<Rightarrow> bool" where
  "no_raise m = (\<forall>s. \<exists>a. outcome (m s) = Inr a)"

section \<open>Fixture sites\<close>

text \<open>A browser on which nothing is found: every wait times out, every search is empty.\<close>

definition blank :: "nat driver" where
  "blank = \<lparr>
     drv_get = (\<lambda>u s. (Inr (), s)),
     wait_clickable = (\<lambda>b sel t s. (Inl TimeoutException, s)),
     wait_presence = (\<lambda>scope b sel t s. (Inl TimeoutException, s)),
     wait_visible = (\<lambda>b sel t s. (Inl TimeoutException, s)),
     scroll_into_view = (\<lambda>e s. (Inr (), s)),
     elem_click = (\<lambda>e s. (Inr (), s)),
     send_keys = (\<lambda>e k s. (Inr (), s)),
     elem_text = (\<lambda>e s. (Inr [], s)),
     find_elements = (\<lambda>scope b sel s. (Inr [], s)),
     find_element = (\<lambda>b sel s. (Inl OtherException, s)),
     get_attribute = (\<lambda>e a s. (Inr None, s)),
     page_source = (\<lambda>s. (Inr None, s)),
     current_url = (\<lambda>s. (Inr [], s)),
     time_sleep = (\<lambda>ms s. s),
     drv_quit = (\<lambda>s. (Inr (), s))\<rparr>"

definition search :: string where
  "search = ''https://www.linkedin.com/jobs/search/?keywords=analyst''"

text \<open>
  A search with two pages of results and no overlay.  The state is the number of the
  result page shown, 0 elsewhere.  Page 1 has three anchors to job views (two of them
  to the same job, and one of these matched by a second selector as well) and one
  anchor elsewhere; page 2 has one; there is no button for a page 3.  The login form
  is present; no job page has a top card.
\<close>

definition two_pages :: "nat driver" where
  "two_pages = blank\<lparr>
     drv_get := (\<lambda>u s. (Inr (), if u = search then 1 else 0)),
     wait_visible := (\<lambda>b sel t s. (Inr 1, s)),
     wait_presence := (\<lambda>scope b sel t s.
        if scope = None \<and> sel = ''ul.jobs-search__results-list'' \<and> (s = 1 \<or> s = 2)
        then (Inr 10, s) else (Inl TimeoutException, s)),
     find_elements := (\<lambda>scope b sel s.
        if scope = Some 10 \<and> sel = ''a[href*='/jobs/view/']''
        then (Inr (if s = 1 then [11, 12, 13, 14] else if s = 2 then [21] else []), s)
        else if scope = Some 10 \<and> sel = ''a.job-card-container__link'' \<and> s = 1
        then (Inr [11], s)
        else (Inr [], s)),
     get_attribute := (\<lambda>e a s. (Inr (
        if e = 11 then Some ''https://www.linkedin.com/jobs/view/101?refId=a''
        else if e = 12 then Some ''https://www.linkedin.com/jobs/view/102?trk=b''
        else if e = 13 then Some '' https://www.linkedin.com/jobs/view/101?refId=c ''
        else if e = 14 then Some ''https://www.linkedin.com/company/acme''
        else if e = 21 then Some ''https://www.linkedin.com/jobs/view/103''
        else None), s)),
     wait_clickable := (\<lambda>b sel t s.
        if sel = ''button[aria-label='Page 2']'' \<and> s = 1 then (Inr 52, s)
        else (Inl TimeoutException, s)),
     elem_click := (\<lambda>e s. (Inr (), if e = 52 then 2 else s))\<rparr>"

text \<open>An overlay that never goes away: no close button, a sign-in button that can be
  clicked, a login form that accepts the credentials.\<close>

definition wall :: "nat driver" where
  "wall = blank\<lparr>
     find_elements := (\<lambda>scope b sel s.
        if sel = ''//h2[contains(., 'Sign in to view more jobs')]'' then (Inr [90], s)
        else (Inr [], s)),
     wait_clickable := (\<lambda>b sel t s.
        if sel = ''//button[contains(., 'Sign in')]'' then (Inr 91, s)
        else (Inl TimeoutException, s)),
     wait_visible := (\<lambda>b sel t s. (Inr 1, s))\<rparr>"

text \<open>An overlay (state 0) that its \<^verbatim>\<open>Close\<close> button removes (state 1).\<close>

definition closable :: "nat driver" where
  "closable = blank\<lparr>
     find_elements := (\<lambda>scope b sel s.
        if sel = ''.artdeco-modal, .sign-in-modal'' \<and> s = 0 then (Inr [90], s)
        else (Inr [], s)),
     wait_clickable := (\<lambda>b sel t s.
        if sel = ''button[aria-label='Close']'' \<and> s = 0 then (Inr 92, s)
        else (Inl TimeoutException, s)),
     elem_click := (\<lambda>e s. (Inr (), if e = 92 then 1 else s))\<rparr>"

definition job1 :: string where "job1 = ''https://www.linkedin.com/jobs/view/101''"
definition job2 :: string where "job2 = ''https://www.linkedin.com/jobs/view/102''"
definition job3 :: string where "job3 = ''https://www.linkedin.com/jobs/view/103''"
definition job4 :: string where "job4 = ''https://www.linkedin.com/jobs/view/104''"

text \<open>
  Four job pages; the state is the number of the page shown.  Page 1 has a top card with
  the title ``Data Analyst'' and a company name, and no description block.  Page 2 has a
  top card without any field, and a description block.  Page 3 has no top card, and the
  same description block.  Page 4 has a top card without any field and no description
  block; so has every other page.
\<close>

definition job_pages :: "nat driver" where
  "job_pages = blank\<lparr>
     drv_get := (\<lambda>u s. (Inr (),
        if u = job1 then 1 else if u = job2 then 2 else if u = job3 then 3 else 4)),
     wait_presence := (\<lambda>scope b sel t s.
        if scope = None \<and> sel = ''.jobs-unified-top-card'' \<and> s \<noteq> 3 then (Inr 30, s)
        else if scope = Some 30 \<and> sel = ''h1'' \<and> s = 1 then (Inr 31, s)
        else if scope = Some 30 \<and> sel = ''.jobs-unified-top-card__company-name'' \<and> s = 1
        then (Inr 32, s)
        else (Inl TimeoutException, s)),
     elem_text := (\<lambda>e s. (Inr (
        if e = 31 then ''  Data Analyst '' @ [CHR 0x0A]
        else if e = 32 then ''Acme''
        else if e = 40 then '' Analyse the data. ''
        else []), s)),
     find_elements := (\<lambda>scope b sel s.
        if scope = None \<and> sel = desc_selector \<and> (s = 2 \<or> s = 3) then (Inr [40], s)
        else (Inr [], s))\<rparr>"

declare clear_signin_overlay_or_reauth.simps [simp del]

section \<open>The program combinators\<close>

lemma bnd_Inr: "m s = (Inr a, s1, t1) \<Longrightarrow> bnd m f s = (case f a s1 of (r, s2, t2) \<Rightarrow> (r, s2, t1 @ t2))"
  by (simp add: bnd_def)

lemma bnd_Inl: "m s = (Inl e, s1, t1) \<Longrightarrow> bnd m f s = (Inl e, s1, t1)"
  by (simp add: bnd_def)

lemma bnd_ret_right: "bnd m ret = m"
  by (rule ext) (simp add: bnd_def ret_def split: prod.splits sum.splits)

lemma events_bnd:
  "events (bnd m f s) =
     events (m s) @ (case outcome (m s) of Inl e \<Rightarrow> [] | Inr a \<Rightarrow> events (f a (fst (snd (m s)))))"
  by (simp add: bnd_def events_def outcome_def split: prod.splits sum.splits)

lemma events_try_except:
  "events (try_except m h s) =
     events (m s) @ (case outcome (m s) of Inl e \<Rightarrow> events (h e (fst (snd (m s)))) | Inr a \<Rightarrow> [])"
  by (simp add: try_except_def events_def outcome_def split: prod.splits sum.splits)

lemma events_simps [simp]:
  "events (ret a s) = []" "events (raise e s) = []" "events (emit ev s) = [ev]"
  "events (prim g s) = []" "events (sleep d ms s) = []"
  by (simp_all add: events_def ret_def raise_def emit_def prim_def sleep_def split: prod.splits)

lemma outcome_simps [simp]:
  "outcome (ret a s) = Inr a" "outcome (raise e s) = Inl e" "outcome (emit ev s) = Inr ()"
  "outcome (sleep d ms s) = Inr ()"
  by (simp_all add: outcome_def ret_def raise_def emit_def sleep_def)

lemma emitsI: "(\<And>s. list_all P (events (m s))) \<Longrightarrow> emits P m"
  by (simp add: emits_def)

lemma emitsD: "emits P m \<Longrightarrow> list_all P (events (m s))"
  by (simp add: emits_def)

lemma emits_basic [simp]:
  "emits P (ret a)" "emits P (raise e)" "emits P (prim g)" "emits P (sleep d ms)"
  by (simp_all add: emits_def)

lemma emits_emit [simp]: "emits P (emit ev) = P ev"
  by (simp add: emits_def)

lemma emits_bnd: "emits P m \<Longrightarrow> (\<And>a. emits P (f a)) \<Longrightarrow> emits P (bnd m f)"
  by (simp add: emits_def events_bnd split: sum.splits)

lemma emits_try_except: "emits P m \<Longrightarrow> (\<And>e. emits P (h e)) \<Longrightarrow> emits P (try_except m h)"
  by (simp add: emits_def events_try_except split: sum.splits)

lemma emits_except_timeout: "emits P m \<Longrightarrow> emits P h \<Longrightarrow> emits P (except_timeout m h)"
  by (auto simp add: emits_def except_timeout_def events_def split: prod.splits sum.splits exn.splits)
    (metis snd_conv)+

lemma emits_filter: "emits (\<lambda>e. \<not> P e) m \<Longrightarrow> filter P (events (m s)) = []"
  by (auto simp add: emits_def list_all_iff filter_empty_conv)

lemma no_raise_basic [simp]: "no_raise (ret a)" "no_raise (emit ev)" "no_raise (sleep d ms)"
  by (simp_all add: no_raise_def outcome_def ret_def emit_def sleep_def)

lemma no_raise_bnd: "no_raise m \<Longrightarrow> (\<And>a. no_raise (f a)) \<Longrightarrow> no_raise (bnd m f)"
  apply (simp add: no_raise_def outcome_def bnd_def split: prod.splits sum.splits)
  by (metis fst_conv sum.exhaust surj_pair Inl_Inr_False)

lemma no_raise_try_except: "(\<And>e. no_raise (h e)) \<Longrightarrow> no_raise (try_except m h)"
  apply (simp add: no_raise_def outcome_def try_except_def split: prod.splits sum.splits)
  by (metis fst_conv sum.exhaust surj_pair Inl_Inr_False)

lemma emits_try_click: "P (Click b sel) \<Longrightarrow> emits P (try_click d wait b sel timeout)"
  by (simp add: try_click_def emits_bnd emits_try_except)

lemma no_raise_try_click: "no_raise (try_click d wait b sel timeout)"
  by (simp add: try_click_def no_raise_try_except)

lemma emits_first_text: "emits P (first_text d scope sels timeout)"
  by (induction sels) (auto intro!: emits_bnd emits_try_except split: option.splits)


section \<open>The job page\<close>

lemma outcome_bnd_Inr: "m s = (Inr a, s1, t1) \<Longrightarrow> outcome (bnd m f s) = outcome (f a s1)"
  by (simp add: bnd_def outcome_def split: prod.splits)


lemma scrape_job_caught:
  "outcome (scrape_job_try d wait u s) = Inl e \<Longrightarrow> outcome (scrape_job d wait u s) = Inr None"
  by (cases "scrape_job_try d wait u s"; cases e)
     (simp_all add: scrape_job_def bnd_def emit_def try_except_def ret_def outcome_def)

lemma scrape_job_passed:
  "outcome (scrape_job_try d wait u s) = Inr r \<Longrightarrow> outcome (scrape_job d wait u s) = Inr r"
  by (cases "scrape_job_try d wait u s")
     (simp_all add: scrape_job_def bnd_def emit_def try_except_def ret_def outcome_def)

lemma scrape_job_try_read:
  assumes "read_top_card d wait u s = (Inr tc, s1, t1)"
    and "read_description d s1 = (Inr descr, s2, t2)"
  shows "outcome (scrape_job_try d wait u s) = Inr (make_record u tc descr)"
  using assms by (simp add: scrape_job_try_def bnd_def ret_def outcome_def)

lemma make_record_Some:
  "make_record u tc descr = Some r \<Longrightarrow> truthy (job_title r) \<or> truthy (job_description r)"
  by (auto simp add: make_record_def split: if_splits)

lemma scrape_job_try_make:
  "outcome (scrape_job_try d wait u s) = Inr x \<Longrightarrow> \<exists>tc descr. x = make_record u tc descr"
  by (auto simp add: scrape_job_try_def bnd_def ret_def outcome_def split: prod.splits sum.splits)

lemma scrape_job_make:
  assumes "outcome (scrape_job d wait u s) = Inr (Some r)"
  shows "\<exists>tc descr. make_record u tc descr = Some r"
proof (cases "outcome (scrape_job_try d wait u s)")
  case (Inl e)
  then show ?thesis using scrape_job_caught [of d wait u s e] assms by simp
next
  case (Inr x)
  with scrape_job_passed [of d wait u s x] assms have "x = Some r" by simp
  moreover from Inr scrape_job_try_make [of d wait u s x]
  obtain tc descr where "x = make_record u tc descr" by auto
  ultimately have "make_record u tc descr = Some r" by simp
  then show ?thesis by (intro exI)
qed

lemma scrape_job_try_no_card:
  "outcome (read_top_card d wait u s) = Inl e \<Longrightarrow> outcome (scrape_job_try d wait u s) = Inl e"
  by (cases "read_top_card d wait u s")
     (simp add: scrape_job_try_def bnd_def outcome_def)

text \<open>
  Claim C3, as amended.  Whatever the browser does, a record returned by \<^verbatim>\<open>scrape_job\<close>
  has a non-empty title or a non-empty description.  When the wait for the top card, or
  any step before the description is looked up, raises, no record is returned, whatever
  the page holds.  When the top card has been read and the description has been looked
  up, with an empty title, the function returns no record if the description is empty
  as well, and a record holding the values read if the description is not empty.
\<close>

theorem extract_validity:
  "(outcome (scrape_job d wait u s) = Inr (Some r) \<longrightarrow>
      truthy (job_title r) \<or> truthy (job_description r)) \<and>
   (outcome (read_top_card d wait u s) = Inl e \<longrightarrow>
      outcome (scrape_job d wait u s) = Inr None) \<and>
   (read_top_card d wait u s = (Inr tc, s1, t1) \<and>
    read_description d s1 = (Inr descr, s2, t2) \<longrightarrow>
      (\<not> truthy (title tc) \<and> \<not> truthy descr \<longrightarrow>
         outcome (scrape_job d wait u s) = Inr None) \<and>
      (\<not> truthy (title tc) \<and> truthy descr \<longrightarrow>
         outcome (scrape_job d wait u s) =
           Inr (Some \<lparr>job_title = title tc, company_name = company tc,
                      company_location = location tc, work_method = workplace tc,
                      post_date = posted tc, work_time = schedule tc,
                      job_description = descr, url = u\<rparr>)))"
proof (intro conjI impI)
  assume "outcome (scrape_job d wait u s) = Inr (Some r)"
  then show "truthy (job_title r) \<or> truthy (job_description r)"
    using scrape_job_make [of d wait u s r] make_record_Some [of u _ _ r] by auto
next
  assume "outcome (read_top_card d wait u s) = Inl e"
  then have "outcome (scrape_job_try d wait u s) = Inl e"
    by (rule scrape_job_try_no_card)
  then show "outcome (scrape_job d wait u s) = Inr None"
    by (rule scrape_job_caught)
next
  assume a: "read_top_card d wait u s = (Inr tc, s1, t1) \<and>
    read_description d s1 = (Inr descr, s2, t2)"
  assume "\<not> truthy (title tc) \<and> \<not> truthy descr"
  then show "outcome (scrape_job d wait u s) = Inr None"
    using a scrape_job_try_read [of d wait u s tc s1 t1 descr s2 t2]
      scrape_job_passed [of d wait u s "make_record u tc descr"]
    by (simp add: make_record_def)
next
  assume a: "read_top_card d wait u s = (Inr tc, s1, t1) \<and>
    read_description d s1 = (Inr descr, s2, t2)"
  assume "\<not> truthy (title tc) \<and> truthy descr"
  then show "outcome (scrape_job d wait u s) =
           Inr (Some \<lparr>job_title = title tc, company_name = company tc,
                      company_location = location tc, work_method = workplace tc,
                      post_date = posted tc, work_time = schedule tc,
                      job_description = descr, url = u\<rparr>)"
    using a scrape_job_try_read [of d wait u s tc s1 t1 descr s2 t2]
      scrape_job_passed [of d wait u s "make_record u tc descr"]
    by (simp add: make_record_def)
qed

text \<open>On the fixture: page 2 has a top card and a description only and gives a record;
  page 4 has a top card and neither and gives none; on page 3 the wait for the top card
  times out and there is no record.\<close>

theorem extract_validity_witness:
  "read_top_card job_pages 20 job2 0 =
     (Inr \<lparr>title = None, company = None, location = None, workplace = None,
            posted = None, schedule = None\<rparr>, 2, [Nav job2]) \<and>
   read_description job_pages 2 = (Inr (Some ''Analyse the data.''), 2, []) \<and>
   outcome (scrape_job job_pages 20 job2 0) =
     Inr (Some \<lparr>job_title = None, company_name = None, company_location = None,
                work_method = None, post_date = None, work_time = None,
                job_description = Some ''Analyse the data.'', url = job2\<rparr>) \<and>
   read_top_card job_pages 20 job4 0 =
     (Inr \<lparr>title = None, company = None, location = None, workplace = None,
            posted = None, schedule = None\<rparr>, 4, [Nav job4]) \<and>
   read_description job_pages 4 = (Inr None, 4, []) \<and>
   outcome (scrape_job job_pages 20 job4 0) = Inr None \<and>
   outcome (read_top_card job_pages 20 job3 0) = Inl TimeoutException \<and>
   outcome (scrape_job job_pages 20 job3 0) = Inr None"
proof -
  have a: "read_top_card job_pages 20 job2 0 =
     (Inr \<lparr>title = None, company = None, location = None, workplace = None,
            posted = None, schedule = None\<rparr>, 2, [Nav job2])"
    by code_simp
  have b: "read_description job_pages 2 = (Inr (Some ''Analyse the data.''), 2, [])"
    by code_simp
  have c: "read_top_card job_pages 20 job4 0 =
     (Inr \<lparr>title = None, company = None, location = None, workplace = None,
            posted = None, schedule = None\<rparr>, 4, [Nav job4])"
    by code_simp
  have e: "read_description job_pages 4 = (Inr None, 4, [])"
    by code_simp
  have f: "outcome (read_top_card job_pages 20 job3 0) = Inl TimeoutException"
    by code_simp
  show ?thesis
    using a b c e f
      extract_validity [of job_pages 20 job2 0 _ _ _ 2 "[Nav job2]" "Some ''Analyse the data.''" 2 "[]"]
      extract_validity [of job_pages 20 job4 0 _ _ _ 4 "[Nav job4]" None 4 "[]"]
      extract_validity [of job_pages 20 job3 0 _ TimeoutException]
    by (simp add: truthy_def)
qed

text \<open>
  Claim C3 as stated gives a record to every page on which only the description
  resolves.  Page 3 of the fixture has the description block and no top card: the wait
  of line 261 times out and \<^verbatim>\<open>scrape_job\<close> returns \<^verbatim>\<open>None\<close>, although the description
  of the page is not empty.
\<close>

theorem description_without_top_card:
  "wait_presence job_pages None CSS_SELECTOR ''.jobs-unified-top-card'' 8 3 =
     (Inl TimeoutException, 3) \<and>
   read_description job_pages 3 = (Inr (Some ''Analyse the data.''), 3, []) \<and>
   scrape_job job_pages 20 job3 0 = (Inr None, 3, [ScrapeCall job3, Nav job3])"
  by code_simp

lemma read_description_absent:
  "find_elements d None CSS_SELECTOR desc_selector s1 = (Inr [], s2) \<Longrightarrow>
   read_description d s1 = (Inr None, s2, [])"
  by (simp add: read_description_def bnd_def prim_def ret_def)

text \<open>
  Claim C8, as amended.  When the top card gives the title ``Data Analyst'' and a company
  name, and the page has no description block, \<^verbatim>\<open>scrape_job\<close> returns a record with
  that title and company, with the URL it was given, and whose description is absent
  (\<^verbatim>\<open>None\<close>); the other fields are those read in the top card.
\<close>

theorem extract_title_without_description:
  assumes "read_top_card d wait u s = (Inr tc, s1, t1)"
    and "title tc = Some ''Data Analyst''"
    and "company tc = Some c"
    and "find_elements d None CSS_SELECTOR desc_selector s1 = (Inr [], s2)"
  shows "outcome (scrape_job d wait u s) =
     Inr (Some \<lparr>job_title = Some ''Data Analyst'', company_name = Some c,
                company_location = location tc, work_method = workplace tc,
                post_date = posted tc, work_time = schedule tc,
                job_description = None, url = u\<rparr>)"
proof -
  have "read_description d s1 = (Inr None, s2, [])"
    using assms(4) by (rule read_description_absent)
  with assms(1) have "outcome (scrape_job_try d wait u s) = Inr (make_record u tc None)"
    by (rule scrape_job_try_read)
  then have "outcome (scrape_job d wait u s) = Inr (make_record u tc None)"
    by (rule scrape_job_passed)
  then show ?thesis
    using assms(2,3) by (simp add: make_record_def truthy_def)
qed

text \<open>Page 1 of the fixture is such a page.\<close>

theorem extract_title_without_description_witness:
  "read_top_card job_pages 20 job1 0 =
     (Inr \<lparr>title = Some ''Data Analyst'', company = Some ''Acme'', location = None,
            workplace = None, posted = None, schedule = None\<rparr>, 1, [Nav job1]) \<and>
   find_elements job_pages None CSS_SELECTOR desc_selector 1 = (Inr [], 1) \<and>
   outcome (scrape_job job_pages 20 job1 0) =
     Inr (Some \<lparr>job_title = Some ''Data Analyst'', company_name = Some ''Acme'',
                company_location = None, work_method = None, post_date = None,
                work_time = None, job_description = None, url = job1\<rparr>)"
proof -
  have a: "read_top_card job_pages 20 job1 0 =
     (Inr \<lparr>title = Some ''Data Analyst'', company = Some ''Acme'', location = None,
            workplace = None, posted = None, schedule = None\<rparr>, 1, [Nav job1])"
    by code_simp
  have b: "find_elements job_pages None CSS_SELECTOR desc_selector 1 = (Inr [], 1)"
    by code_simp
  show ?thesis
    using a b extract_title_without_description [OF a _ _ b, of "''Acme''"] by simp
qed

text \<open>
  Claim C8 as stated asks for the empty string as description.  On page 1 of the fixture
  (title ``Data Analyst'', company ``Acme'', no description block) the description of
  the record is \<^verbatim>\<open>None\<close>, and the record is not the one with the description \<^verbatim>\<open>""\<close>.
\<close>

theorem description_is_not_empty_string:
  "outcome (scrape_job job_pages 20 job1 0) =
     Inr (Some \<lparr>job_title = Some ''Data Analyst'', company_name = Some ''Acme'',
                company_location = None, work_method = None, post_date = None,
                work_time = None, job_description = None, url = job1\<rparr>) \<and>
   outcome (scrape_job job_pages 20 job1 0) \<noteq>
     Inr (Some \<lparr>job_title = Some ''Data Analyst'', company_name = Some ''Acme'',
                company_location = None, work_method = None, post_date = None,
                work_time = None, job_description = Some [], url = job1\<rparr>)"
  by code_simp

lemma emits_nav: "P (Nav u) \<Longrightarrow> emits P (nav d u)"
  by (simp add: nav_def emits_bnd)

lemma emits_read_top_card:
  "P (Nav u) \<Longrightarrow> (\<And>b sel. P (Click b sel)) \<Longrightarrow> emits P (read_top_card d wait u)"
  unfolding read_top_card_def
  by (intro emits_bnd emits_nav emits_try_click emits_first_text emits_basic) simp_all

lemma emits_read_description: "emits P (read_description d)"
  by (auto simp add: read_description_def intro!: emits_bnd split: list.splits)

lemma emits_scrape_job_try:
  "P (Nav u) \<Longrightarrow> (\<And>b sel. P (Click b sel)) \<Longrightarrow> emits P (scrape_job_try d wait u)"
  unfolding scrape_job_try_def
  by (intro emits_bnd emits_read_top_card emits_read_description emits_basic) simp_all






section \<open>The sign-in overlay\<close>

lemma is_authwall_modal_shape:
  "\<exists>b s1. is_authwall_modal d s = (Inr b, s1, [OverlayCheck b])"
  by (auto simp add: is_authwall_modal_def bnd_def try_except_def prim_def ret_def emit_def
      split: prod.splits sum.splits)

lemma no_raise_is_authwall_modal: "no_raise (is_authwall_modal d)"
proof -
  have "\<exists>a. outcome (is_authwall_modal d s) = Inr a" for s
    using is_authwall_modal_shape [of d s] by (auto simp add: outcome_def)
  then show ?thesis by (simp add: no_raise_def)
qed

lemma events_is_authwall_modal:
  "\<exists>b. events (is_authwall_modal d s) = [OverlayCheck b]"
  using is_authwall_modal_shape [of d s] by (auto simp add: events_def)

lemma emits_is_authwall_modal: "(\<And>r. P (OverlayCheck r)) \<Longrightarrow> emits P (is_authwall_modal d)"
proof (rule emitsI)
  fix s assume "\<And>r. P (OverlayCheck r)"
  then show "list_all P (events (is_authwall_modal d s))"
    using events_is_authwall_modal [of d s] by auto
qed

lemma emits_dismiss_loop:
  "(\<And>b sel. P (Click b sel)) \<Longrightarrow> (\<And>r. P (OverlayCheck r)) \<Longrightarrow>
   emits P (dismiss_loop d wait sels)"
  by (induction sels)
     (auto intro!: emits_bnd emits_try_click emits_is_authwall_modal)

lemma emits_click_sign_in:
  "(\<And>b sel. P (Click b sel)) \<Longrightarrow> emits P (click_sign_in d wait)"
  by (auto simp add: click_sign_in_def intro!: emits_bnd emits_try_click)

lemma emits_dismiss_consent:
  "(\<And>b sel. P (Click b sel)) \<Longrightarrow> emits P (dismiss_consent d wait sels)"
  by (induction sels) (auto intro!: emits_bnd emits_try_click)

lemma emits_login:
  "P LoginCall \<Longrightarrow> (\<And>u. P (Nav u)) \<Longrightarrow> (\<And>b sel. P (Click b sel)) \<Longrightarrow>
   emits P (login d wait user pwd)"
  unfolding login_def
  by (intro emits_bnd emits_nav emits_try_click emits_dismiss_consent emits_basic) simp_all

lemma dismiss_loop_True:
  "dismiss_loop d wait sels s = (Inr True, s1, t) \<Longrightarrow> \<exists>t0. t = t0 @ [OverlayCheck False]"
proof (induction sels arbitrary: s t)
  case Nil
  then show ?case by (simp add: ret_def)
next
  case (Cons sel sels)
  obtain c s2 t2 where c: "try_click d wait CSS_SELECTOR sel 2 s = (Inr c, s2, t2)"
    using no_raise_try_click [of d wait CSS_SELECTOR sel 2]
    by (metis no_raise_def outcome_def prod.collapse)
  show ?case
  proof (cases c)
    case False
    with Cons.prems c obtain t3 where "dismiss_loop d wait sels s2 = (Inr True, s1, t3)" "t = t2 @ t3"
      by (auto simp add: bnd_def split: prod.splits)
    with Cons.IH show ?thesis by fastforce
  next
    case True
    obtain m s3 where m: "is_authwall_modal d (time_sleep d 500 s2) = (Inr m, s3, [OverlayCheck m])"
      using is_authwall_modal_shape [of d "time_sleep d 500 s2"] by auto
    show ?thesis
    proof (cases m)
      case False
      with True Cons.prems c m show ?thesis
        by (auto simp add: bnd_def sleep_def ret_def split: prod.splits)
    next
      case mt: True
      with True Cons.prems c m obtain t3 where
        "dismiss_loop d wait sels s3 = (Inr True, s1, t3)" "t = t2 @ OverlayCheck True # t3"
        by (auto simp add: bnd_def sleep_def ret_def split: prod.splits)
      with Cons.IH show ?thesis by fastforce
    qed
  qed
qed


lemma after_simps [simp]:
  "fst (snd (ret a s)) = s" "fst (snd (raise e s)) = s" "fst (snd (emit ev s)) = s"
  "fst (snd (sleep d ms s)) = time_sleep d ms s"
  by (simp_all add: ret_def raise_def emit_def sleep_def)

lemma count_le_emit_bnd:
  "(\<And>a. emits (\<lambda>e. \<not> P e) (f a)) \<Longrightarrow> count_le P 1 (bnd (emit ev) f)"
  by (simp add: count_le_def events_bnd emits_filter)

lemma count_leD: "count_le P k m \<Longrightarrow> length (filter P (events (m s))) \<le> k"
  by (simp add: count_le_def)

lemma login_once: "count_le (\<lambda>e. e = LoginCall) 1 (login d wait user pwd)"
  unfolding login_def
  by (rule count_le_emit_bnd)
     (intro emits_bnd emits_nav emits_try_click emits_dismiss_consent emits_basic; simp)

lemma quiet_steps:
  "filter is_recovery_call (events (is_authwall_modal d s)) = []"
  "filter is_recovery_call (events (dismiss_loop d wait sels s)) = []"
  "filter is_recovery_call (events (click_sign_in d wait s)) = []"
  "filter is_recovery_call (events (login d wait user pwd s)) = []"
  "filter is_recovery_call (events (nav d u s)) = []"
  "filter (\<lambda>e. e = LoginCall) (events (is_authwall_modal d s)) = []"
  "filter (\<lambda>e. e = LoginCall) (events (dismiss_loop d wait sels s)) = []"
  "filter (\<lambda>e. e = LoginCall) (events (click_sign_in d wait s)) = []"
  "filter (\<lambda>e. e = LoginCall) (events (nav d u s)) = []"
  by (rule emits_filter, (rule emits_is_authwall_modal emits_dismiss_loop emits_click_sign_in
        emits_login emits_nav; simp add: is_recovery_call_def))+

lemma recovery_calls_bounded:
  "\<forall>s. length (filter is_recovery_call
           (events (clear_signin_overlay_or_reauth d wait search_url user pwd attempts s)))
        \<le> nat attempts + 1"
proof (induction d wait search_url user pwd attempts
    rule: clear_signin_overlay_or_reauth.induct)
  case (1 d wait search_url user pwd attempts)
  have ih: "length (filter is_recovery_call
           (events (clear_signin_overlay_or_reauth d wait search_url user pwd (attempts - 1) s)))
        \<le> nat attempts" if "0 < attempts" for s
  proof -
    have "length (filter is_recovery_call
           (events (clear_signin_overlay_or_reauth d wait search_url user pwd (attempts - 1) s)))
        \<le> nat (attempts - 1) + 1"
      using "1.IH" [of True False True True] that by simp
    also have "nat (attempts - 1) + 1 = nat attempts" using that by simp
    finally show ?thesis .
  qed
  show ?case
  proof
    fix s
    show "length (filter is_recovery_call
           (events (clear_signin_overlay_or_reauth d wait search_url user pwd attempts s)))
        \<le> nat attempts + 1"
      apply (subst clear_signin_overlay_or_reauth.simps)
      apply (simp add: events_bnd events_try_except quiet_steps is_recovery_call_def
          split: sum.splits)
      apply (auto simp add: ih is_recovery_call_def [symmetric])
      done
  qed
qed


lemma login_calls_bounded:
  "\<forall>s. length (filter (\<lambda>e. e = LoginCall)
           (events (clear_signin_overlay_or_reauth d wait search_url user pwd attempts s)))
        \<le> nat attempts + 1"
proof (induction d wait search_url user pwd attempts
    rule: clear_signin_overlay_or_reauth.induct)
  case (1 d wait search_url user pwd attempts)
  have lg: "length (filter (\<lambda>e. e = LoginCall) (events (login d wait user pwd s))) \<le> 1" for s
    by (rule count_leD [OF login_once])
  have ih: "length (filter (\<lambda>e. e = LoginCall)
           (events (clear_signin_overlay_or_reauth d wait search_url user pwd (attempts - 1) s)))
        \<le> nat attempts" if "0 < attempts" for s
  proof -
    have "length (filter (\<lambda>e. e = LoginCall)
           (events (clear_signin_overlay_or_reauth d wait search_url user pwd (attempts - 1) s)))
        \<le> nat (attempts - 1) + 1"
      using "1.IH" [of True False True True] that by simp
    also have "nat (attempts - 1) + 1 = nat attempts" using that by simp
    finally show ?thesis .
  qed
  have both: "length (filter (\<lambda>e. e = LoginCall) (events (login d wait user pwd s))) +
     length (filter (\<lambda>e. e = LoginCall)
           (events (clear_signin_overlay_or_reauth d wait search_url user pwd (attempts - 1) s')))
     \<le> Suc (nat attempts)" if "0 < attempts" for s s'
    using lg [of s] ih [OF that, of s'] by simp
  have one: "length (filter (\<lambda>e. e = LoginCall) (events (login d wait user pwd s)))
     \<le> Suc (nat attempts)" for s
    using lg [of s] by simp
  show ?case
  proof
    fix s
    show "length (filter (\<lambda>e. e = LoginCall)
           (events (clear_signin_overlay_or_reauth d wait search_url user pwd attempts s)))
        \<le> nat attempts + 1"
      apply (subst clear_signin_overlay_or_reauth.simps)
      apply (simp add: events_bnd events_try_except quiet_steps split: sum.splits)
      apply (auto simp add: both one lg [simplified])
      done
  qed
qed


lemma filter_emit_bnd:
  "(\<And>a. emits (\<lambda>e. \<not> P e) (f a)) \<Longrightarrow> P ev \<Longrightarrow>
   filter P (events (bnd (emit ev) f s)) = [ev]"
  by (simp add: events_bnd emits_filter)

lemma login_calls:
  "filter (\<lambda>e. e = LoginCall) (events (login d wait user pwd s)) = [LoginCall]"
  unfolding login_def
proof (rule filter_emit_bnd)
  show "emits (\<lambda>e. e \<noteq> LoginCall)
     (bnd (nav d login_url) (\<lambda>_.
      bnd (dismiss_consent d wait consent_selectors) (\<lambda>_.
      bnd (prim (wait_visible d ID ''username'' wait)) (\<lambda>u.
      bnd (prim (send_keys d u user)) (\<lambda>_.
      bnd (prim (wait_visible d ID ''password'' wait)) (\<lambda>p.
      bnd (prim (send_keys d p pwd)) (\<lambda>_.
      bnd (try_click d wait XPATH ''//button[@type='submit']'' 10) (\<lambda>_.
      ret ()))))))))" for a :: unit
    by (intro emits_bnd emits_nav emits_try_click emits_dismiss_consent emits_basic; simp)
qed simp

text \<open>
  Claim C6.  \<^verbatim>\<open>clear_signin_overlay_or_reauth\<close> is a total function: its recursion
  descends on \<^verbatim>\<open>attempts\<close> and was shown to terminate where it is defined, for every
  driver.  With a budget \<open>n \<ge> 0\<close>, whatever the page does, the function is entered at
  most \<open>n + 1\<close> times (the first call and at most \<open>n\<close> retries) and \<^verbatim>\<open>login\<close> is
  called at most \<open>n + 1\<close> times.
\<close>

theorem recovery_within_budget:
  "0 \<le> n \<Longrightarrow>
   int (length (filter is_recovery_call
     (events (clear_signin_overlay_or_reauth d wait search_url user pwd n s)))) \<le> n + 1 \<and>
   int (length (filter (\<lambda>e. e = LoginCall)
     (events (clear_signin_overlay_or_reauth d wait search_url user pwd n s)))) \<le> n + 1"
  using recovery_calls_bounded [of d wait search_url user pwd n]
    login_calls_bounded [of d wait search_url user pwd n]
  by (auto simp add: nat_le_iff le_nat_iff dest!: spec [of _ s])

text \<open>With the default budget 1 and an overlay that never goes away the bound is
  reached: two logins.\<close>

theorem recovery_within_budget_witness:
  "(0::int) \<le> 1 \<and>
   int (length (filter is_recovery_call
     (events (clear_signin_overlay_or_reauth wall 20 search ''u'' ''p'' 1 0)))) \<le> 1 + 1 \<and>
   int (length (filter (\<lambda>e. e = LoginCall)
     (events (clear_signin_overlay_or_reauth wall 20 search ''u'' ''p'' 1 0)))) \<le> 1 + 1 \<and>
   length (filter (\<lambda>e. e = LoginCall)
     (events (clear_signin_overlay_or_reauth wall 20 search ''u'' ''p'' 1 0))) = 2"
proof -
  have "length (filter (\<lambda>e. e = LoginCall)
     (events (clear_signin_overlay_or_reauth wall 20 search ''u'' ''p'' 1 0))) = 2"
    by code_simp
  then show ?thesis
    using recovery_within_budget [of 1 wall 20 search "''u''" "''p''" 0] by simp
qed

text \<open>
  Claim C5.  When the overlay is seen and the loop over the close buttons ends inside
  (a button was clicked and the check after it, the last event of the loop, found no
  overlay), the function returns there: its events are the entry, the first check and
  those of the loop, and \<^verbatim>\<open>login\<close> is not among them.
\<close>

theorem dismissal_completes_without_login:
  assumes "is_authwall_modal d s = (Inr True, s1, t1)"
    and "dismiss_loop d wait dismiss_selectors s1 = (Inr True, s2, t2)"
  shows "clear_signin_overlay_or_reauth d wait search_url user pwd n s =
           (Inr (), s2, RecoveryCall n # t1 @ t2) \<and>
         filter (\<lambda>e. e = LoginCall) (RecoveryCall n # t1 @ t2) = [] \<and>
         (\<exists>t0. t2 = t0 @ [OverlayCheck False])"
proof (intro conjI)
  show "clear_signin_overlay_or_reauth d wait search_url user pwd n s =
           (Inr (), s2, RecoveryCall n # t1 @ t2)"
    by (subst clear_signin_overlay_or_reauth.simps)
       (simp add: bnd_def emit_def ret_def assms)
  have "filter (\<lambda>e. e = LoginCall) t1 = []"
    using quiet_steps(6) [of d s] assms(1) by (simp add: events_def)
  moreover have "filter (\<lambda>e. e = LoginCall) t2 = []"
    using quiet_steps(7) [of d wait dismiss_selectors s1] assms(2) by (simp add: events_def)
  ultimately show "filter (\<lambda>e. e = LoginCall) (RecoveryCall n # t1 @ t2) = []"
    by simp
  show "\<exists>t0. t2 = t0 @ [OverlayCheck False]"
    using assms(2) by (rule dismiss_loop_True)
qed

text \<open>On the fixture whose \<^verbatim>\<open>Close\<close> button removes the overlay.\<close>

theorem dismissal_completes_without_login_witness:
  "is_authwall_modal closable 0 = (Inr True, 0, [OverlayCheck True]) \<and>
   dismiss_loop closable 20 dismiss_selectors 0 =
     (Inr True, 1, [Click CSS_SELECTOR ''button[aria-label='Close']'', OverlayCheck False]) \<and>
   clear_signin_overlay_or_reauth closable 20 search ''u'' ''p'' 1 0 =
     (Inr (), 1, [RecoveryCall 1, OverlayCheck True,
        Click CSS_SELECTOR ''button[aria-label='Close']'', OverlayCheck False])"
proof -
  have a: "is_authwall_modal closable 0 = (Inr True, 0, [OverlayCheck True])"
    by code_simp
  have b: "dismiss_loop closable 20 dismiss_selectors 0 =
     (Inr True, 1, [Click CSS_SELECTOR ''button[aria-label='Close']'', OverlayCheck False])"
    by code_simp
  show ?thesis
    using a b dismissal_completes_without_login [OF a b, of search "''u''" "''p''" 1] by simp
qed

text \<open>
  Claim C4, as amended.  When the overlay is seen, no close button removes it, a sign-in
  control is clicked, and \<^verbatim>\<open>login\<close> and the navigation return without raising, the
  events of the call are: its entry, the check, the close attempts, the sign-in click,
  those of one \<^verbatim>\<open>login\<close>, the navigation to \<^verbatim>\<open>search_url\<close>, and then, if the budget
  is positive, the check of the overlay; with a budget of 0 or less nothing follows the
  navigation.
\<close>

theorem reauth_cycle:
  assumes "is_authwall_modal d s = (Inr True, s1, t1)"
    and "dismiss_loop d wait dismiss_selectors s1 = (Inr False, s2, t2)"
    and "click_sign_in d wait s2 = (Inr True, s3, t3)"
    and "login d wait user pwd s3 = (Inr (), s4, t4)"
    and "drv_get d search_url s4 = (Inr (), s5)"
  shows "\<exists>rest.
     events (clear_signin_overlay_or_reauth d wait search_url user pwd n s) =
       RecoveryCall n # t1 @ t2 @ t3 @ t4 @ Nav search_url # rest \<and>
     filter (\<lambda>e. e = LoginCall) (t1 @ t2 @ t3 @ t4) = [LoginCall] \<and>
     (if 0 < n then \<exists>b rest'. rest = OverlayCheck b # rest' else rest = [])"
proof -
  have f1: "filter (\<lambda>e. e = LoginCall) t1 = []"
    using quiet_steps(6) [of d s] assms(1) by (simp add: events_def)
  have f2: "filter (\<lambda>e. e = LoginCall) t2 = []"
    using quiet_steps(7) [of d wait dismiss_selectors s1] assms(2) by (simp add: events_def)
  have f3: "filter (\<lambda>e. e = LoginCall) t3 = []"
    using quiet_steps(8) [of d wait s2] assms(3) by (simp add: events_def)
  have f4: "filter (\<lambda>e. e = LoginCall) t4 = [LoginCall]"
    using login_calls [of d wait user pwd s3] assms(4) by (simp add: events_def)
  have nv: "nav d search_url s4 = (Inr (), s5, [Nav search_url])"
    using assms(5) by (simp add: nav_def bnd_def emit_def prim_def)
  obtain b s6 where ch: "is_authwall_modal d (time_sleep d 1000 s5) = (Inr b, s6, [OverlayCheck b])"
    using is_authwall_modal_shape [of d "time_sleep d 1000 s5"] by auto
  show ?thesis
  proof (cases "0 < n")
    case True
    obtain r7 s7 t7 where rec:
      "(if b then clear_signin_overlay_or_reauth d wait search_url user pwd (n - 1)
        else ret ()) s6 = (r7, s7, t7)"
      by (metis prod.exhaust)
    have "events (clear_signin_overlay_or_reauth d wait search_url user pwd n s) =
       RecoveryCall n # t1 @ t2 @ t3 @ t4 @ Nav search_url # OverlayCheck b # t7"
      by (subst clear_signin_overlay_or_reauth.simps)
         (simp add: bnd_def emit_def ret_def sleep_def events_def assms(1-4) nv ch True rec)
    then show ?thesis using f1 f2 f3 f4 True by simp
  next
    case False
    have "events (clear_signin_overlay_or_reauth d wait search_url user pwd n s) =
       RecoveryCall n # t1 @ t2 @ t3 @ t4 @ [Nav search_url]"
      by (subst clear_signin_overlay_or_reauth.simps)
         (simp add: bnd_def emit_def ret_def sleep_def events_def assms(1-4) nv False)
    then show ?thesis using f1 f2 f3 f4 False by simp
  qed
qed

text \<open>On the fixture whose overlay never goes away, with the default budget.\<close>

theorem reauth_cycle_witness:
  "is_authwall_modal wall 0 = (Inr True, 0, [OverlayCheck True]) \<and>
   dismiss_loop wall 20 dismiss_selectors 0 = (Inr False, 0, []) \<and>
   click_sign_in wall 20 0 =
     (Inr True, 0, [Click XPATH ''//button[contains(., 'Sign in')]'']) \<and>
   login wall 20 ''u'' ''p'' 0 = (Inr (), 0, [LoginCall, Nav login_url]) \<and>
   drv_get wall search 0 = (Inr (), 0) \<and>
   (\<exists>rest. events (clear_signin_overlay_or_reauth wall 20 search ''u'' ''p'' 1 0) =
       [RecoveryCall 1, OverlayCheck True, Click XPATH ''//button[contains(., 'Sign in')]'',
        LoginCall, Nav login_url, Nav search] @ rest \<and>
      (\<exists>b rest'. rest = OverlayCheck b # rest'))"
proof -
  have a: "is_authwall_modal wall 0 = (Inr True, 0, [OverlayCheck True])"
    by code_simp
  have b: "dismiss_loop wall 20 dismiss_selectors 0 = (Inr False, 0, [])"
    by code_simp
  have c: "click_sign_in wall 20 0 =
     (Inr True, 0, [Click XPATH ''//button[contains(., 'Sign in')]''])"
    by code_simp
  have e: "login wall 20 ''u'' ''p'' 0 = (Inr (), 0, [LoginCall, Nav login_url])"
    by code_simp
  have f: "drv_get wall search 0 = (Inr (), 0)"
    by code_simp
  show ?thesis
    using a b c e f reauth_cycle [OF a b c e f, of 1] by auto
qed

text \<open>
  Claim C4 as stated has the overlay checked again after every such cycle.  On the same
  fixture a call with budget 0 ends with the navigation, and the call with the default
  budget 1, whose retry is that call, logs in twice and ends without a check.
\<close>

theorem no_recheck_without_budget:
  "outcome (is_authwall_modal wall 0) = Inr True \<and>
   outcome (dismiss_loop wall 20 dismiss_selectors 0) = Inr False \<and>
   outcome (click_sign_in wall 20 0) = Inr True \<and>
   events (clear_signin_overlay_or_reauth wall 20 search ''u'' ''p'' 0 0) =
     [RecoveryCall 0, OverlayCheck True, Click XPATH ''//button[contains(., 'Sign in')]'',
      LoginCall, Nav login_url, Nav search] \<and>
   events (clear_signin_overlay_or_reauth wall 20 search ''u'' ''p'' 1 0) =
     [RecoveryCall 1, OverlayCheck True, Click XPATH ''//button[contains(., 'Sign in')]'',
      LoginCall, Nav login_url, Nav search, OverlayCheck True,
      RecoveryCall 0, OverlayCheck True, Click XPATH ''//button[contains(., 'Sign in')]'',
      LoginCall, Nav login_url, Nav search]"
  by code_simp

section \<open>Collecting the links\<close>

lemma events_emit_bnd: "events (bnd (emit ev) f s) = ev # events (f () s)"
  by (simp add: events_bnd)

lemma emits_find_results_container: "emits P (find_results_container d wait sels)"
  by (induction sels) (auto intro!: emits_except_timeout emits_bnd)

lemma emits_add_links: "(\<And>u. P (LinkAdded u)) \<Longrightarrow> emits P (add_links d anchors links)"
  by (induction anchors arbitrary: links) (auto intro!: emits_bnd)

lemma emits_harvest:
  "P ReadResults \<Longrightarrow> (\<And>u. P (LinkAdded u)) \<Longrightarrow> emits P (harvest d wait links)"
  unfolding harvest_def
  by (intro emits_bnd emits_find_results_container) (auto intro!: emits_bnd emits_add_links split: option.splits)

lemma emits_click_page:
  "(\<And>b sel. P (Click b sel)) \<Longrightarrow> emits P (click_page d wait sels)"
  by (induction sels) (auto intro!: emits_bnd emits_try_except)

lemma emits_paginate:
  "P ReadResults \<Longrightarrow> (\<And>u. P (LinkAdded u)) \<Longrightarrow> (\<And>b sel. P (Click b sel)) \<Longrightarrow>
   (\<And>n. P (PageAttempt n)) \<Longrightarrow> emits P (paginate d wait pages links)"
  by (induction pages arbitrary: links) (auto intro!: emits_bnd emits_click_page emits_harvest)

lemma emits_collect_links:
  "P ReadResults \<Longrightarrow> (\<And>u. P (LinkAdded u)) \<Longrightarrow> (\<And>b sel. P (Click b sel)) \<Longrightarrow>
   (\<And>n. P (PageAttempt n)) \<Longrightarrow> emits P (collect_links d wait pages)"
  unfolding collect_links_def
  by (intro emits_bnd emits_harvest emits_paginate) simp_all

lemma harvest_reads_once:
  "filter (\<lambda>e. e = ReadResults) (events (harvest d wait links s)) = [ReadResults]"
proof -
  have "count_le (\<lambda>e. e = ReadResults) 1 (harvest d wait links)"
    unfolding harvest_def
    by (rule count_le_emit_bnd)
       (intro emits_bnd emits_find_results_container;
        auto intro!: emits_bnd emits_add_links split: option.splits)
  then have "length (filter (\<lambda>e. e = ReadResults) (events (harvest d wait links s))) \<le> 1"
    by (rule count_leD)
  moreover have "\<exists>t. events (harvest d wait links s) = ReadResults # t"
    by (simp add: harvest_def events_emit_bnd)
  ultimately show ?thesis by auto
qed

lemma paginate_Nil: "paginate d wait [] = ret"
  by (rule ext) simp

lemma py_range_empty: "pages \<le> 1 \<Longrightarrow> py_range 2 (max 2 (pages + 1)) = []"
  by (simp add: py_range_def max_def)

text \<open>
  Claim C10.  With \<^verbatim>\<open>pages\<close> at most 1 (zero and negative values included) the range of
  the pagination loop is empty: \<^verbatim>\<open>collect_links\<close> is \<^verbatim>\<open>harvest\<close> on the empty set,
  run once, with the same result, final state and events.  The results are read exactly
  once, the body of the loop is never entered and nothing is clicked.
\<close>

theorem single_page_harvest:
  "pages \<le> 1 \<Longrightarrow>
   collect_links d wait pages s = harvest d wait [] s \<and>
   filter (\<lambda>e. e = ReadResults) (events (collect_links d wait pages s)) = [ReadResults] \<and>
   filter is_page_attempt (events (collect_links d wait pages s)) = [] \<and>
   filter is_click (events (collect_links d wait pages s)) = []"
proof -
  assume "pages \<le> 1"
  then have "py_range 2 (max 2 (pages + 1)) = []"
    by (rule py_range_empty)
  then have eq: "collect_links d wait pages = harvest d wait []"
    unfolding collect_links_def by (simp add: paginate_Nil bnd_ret_right)
  have "emits (\<lambda>e. \<not> is_page_attempt e) (harvest d wait [])"
    by (rule emits_harvest) (simp_all add: is_page_attempt_def)
  moreover have "emits (\<lambda>e. \<not> is_click e) (harvest d wait [])"
    by (rule emits_harvest) (simp_all add: is_click_def)
  ultimately show ?thesis
    by (simp add: eq harvest_reads_once emits_filter)
qed

text \<open>With \<^verbatim>\<open>pages = 0\<close> on the first page of the two-page fixture.\<close>

theorem single_page_harvest_witness:
  "(0::int) \<le> 1 \<and>
   collect_links two_pages 20 0 1 = harvest two_pages 20 [] 1 \<and>
   collect_links two_pages 20 0 1 =
     (Inr [''https://www.linkedin.com/jobs/view/102'', ''https://www.linkedin.com/jobs/view/101''],
      1,
      [ReadResults, LinkAdded ''https://www.linkedin.com/jobs/view/101'',
       LinkAdded ''https://www.linkedin.com/jobs/view/102'',
       LinkAdded ''https://www.linkedin.com/jobs/view/101'',
       LinkAdded ''https://www.linkedin.com/jobs/view/101''])"
proof -
  have "collect_links two_pages 20 0 1 =
     (Inr [''https://www.linkedin.com/jobs/view/102'', ''https://www.linkedin.com/jobs/view/101''],
      1,
      [ReadResults, LinkAdded ''https://www.linkedin.com/jobs/view/101'',
       LinkAdded ''https://www.linkedin.com/jobs/view/102'',
       LinkAdded ''https://www.linkedin.com/jobs/view/101'',
       LinkAdded ''https://www.linkedin.com/jobs/view/101''])"
    by code_simp
  then show ?thesis
    using single_page_harvest [of 0 two_pages 20 1] by simp
qed

lemma no_raise_click_page: "no_raise (click_page d wait sels)"
  by (induction sels) (auto intro!: no_raise_bnd no_raise_try_except)

lemma click_page_False:
  "click_page d wait sels s = (Inr False, s1, t1) \<Longrightarrow> t1 = []"
proof (induction sels arbitrary: s t1)
  case Nil
  then show ?case by (simp add: ret_def)
next
  case (Cons sel sels)
  then show ?case
    by (auto simp add: bnd_def try_except_def prim_def emit_def ret_def
        split: prod.splits sum.splits if_splits)
qed

lemma paginate_stops:
  assumes "click_page d wait (page_selectors page) s = (Inr False, s1, t1)"
  shows "paginate d wait (page # pages) links s = (Inr links, s1, [PageAttempt page])"
proof -
  have "t1 = []" using assms by (rule click_page_False)
  with assms show ?thesis
    by (simp add: bnd_def emit_def ret_def)
qed

lemma added_links_append: "added_links (t1 @ t2) = added_links t1 @ added_links t2"
  by (induction t1 rule: added_links.induct) simp_all

lemma added_links_none: "list_all (\<lambda>e. \<not> is_link_added e) t \<Longrightarrow> added_links t = []"
  by (induction t rule: added_links.induct) (simp_all add: is_link_added_def)

lemma find_results_container_silent: "find_results_container d wait sels s = (r, s1, t) \<Longrightarrow> t = []"
  using emitsD [OF emits_find_results_container, of "\<lambda>e. False" d wait sels s]
  by (cases t) (simp_all add: events_def)

lemma click_page_adds: "click_page d wait sels s = (r, s1, t) \<Longrightarrow> added_links t = []"
  using emitsD [OF emits_click_page, of "\<lambda>e. \<not> is_link_added e" d wait sels s]
  by (simp add: events_def added_links_none is_link_added_def)

lemma split_query_clean: "CHR ''?'' \<notin> set (split_query href)"
  by (auto simp add: split_query_def dest: set_takeWhileD)

lemma add_links_result:
  "add_links d anchors links s = (Inr links', s1, t) \<Longrightarrow> distinct links \<Longrightarrow>
   distinct links' \<and> set links' = set links \<union> set (added_links t) \<and>
   (\<forall>u\<in>set (added_links t). CHR ''?'' \<notin> set u)"
proof (induction anchors arbitrary: links s t)
  case Nil
  then show ?case by (simp add: ret_def)
next
  case (Cons a anchors)
  obtain r s2 where g: "get_attribute d a ''href'' s = (r, s2)"
    by (cases "get_attribute d a ''href'' s")
  show ?case
  proof (cases r)
    case (Inl e)
    with Cons.prems g show ?thesis by (simp add: bnd_def prim_def)
  next
    case (Inr h)
    define href where "href = strip (case h of None \<Rightarrow> [] | Some v \<Rightarrow> v)"
    show ?thesis
    proof (cases "prefix view_prefix href")
      case True
      with Cons.prems(1) g Inr obtain t' where
        rec: "add_links d anchors (List.insert (split_query href) links) s2 = (Inr links', s1, t')"
        and t: "t = LinkAdded (split_query href) # t'"
        by (auto simp add: bnd_def prim_def emit_def href_def split: prod.splits)
      have "distinct (List.insert (split_query href) links)"
        using Cons.prems(2) by simp
      from Cons.IH [OF rec this] show ?thesis
        by (auto simp add: t split_query_clean)
    next
      case False
      with Cons.prems(1) g Inr have "add_links d anchors links s2 = (Inr links', s1, t)"
        by (auto simp add: bnd_def prim_def href_def split: prod.splits)
      from Cons.IH [OF this Cons.prems(2)] show ?thesis .
    qed
  qed
qed

lemma harvest_result:
  assumes "harvest d wait links s = (Inr links', s1, t)" and "distinct links"
  shows "distinct links' \<and> set links' = set links \<union> set (added_links t) \<and>
   (\<forall>u\<in>set (added_links t). CHR ''?'' \<notin> set u)"
proof -
  obtain r s2 t2 where f: "find_results_container d wait candidates s = (r, s2, t2)"
    by (metis prod.exhaust)
  then have t2: "t2 = []" by (rule find_results_container_silent)
  from assms(1) f t2 obtain anchors s3 t' where
    a: "add_links d anchors links s3 = (Inr links', s1, t')" and t: "t = ReadResults # t'"
    by (auto simp add: harvest_def bnd_def emit_def prim_def raise_def
        split: prod.splits sum.splits option.splits)
  from add_links_result [OF a assms(2)] show ?thesis
    by (simp add: t)
qed


lemma harvest_head: "harvest d wait links s = (r, s1, t) \<Longrightarrow> \<exists>t'. t = ReadResults # t'"
proof -
  assume a: "harvest d wait links s = (r, s1, t)"
  have "\<exists>t'. events (harvest d wait links s) = ReadResults # t'"
    by (simp add: harvest_def events_emit_bnd)
  with a show ?thesis by (simp add: events_def)
qed

lemma paginate_result:
  "paginate d wait pages links s = (Inr links', s1, t) \<Longrightarrow> distinct links \<Longrightarrow>
   distinct links' \<and> set links' = set links \<union> set (added_links t) \<and>
   (\<forall>u\<in>set (added_links t). CHR ''?'' \<notin> set u)"
proof (induction pages arbitrary: links s t)
  case Nil
  then show ?case by (simp add: ret_def)
next
  case (Cons page pages)
  obtain c s2 t2 where c: "click_page d wait (page_selectors page) s = (Inr c, s2, t2)"
    using no_raise_click_page [of d wait "page_selectors page"]
    by (metis no_raise_def outcome_def prod.collapse)
  then have t2: "added_links t2 = []" by (rule click_page_adds)
  show ?case
  proof (cases c)
    case False
    with Cons.prems c t2 show ?thesis
      by (auto simp add: bnd_def emit_def ret_def)
  next
    case True
    with Cons.prems(1) c obtain mid s3 t3 t4 where
      h: "harvest d wait links (time_sleep d 1200 s2) = (Inr mid, s3, t3)"
      and p: "paginate d wait pages mid s3 = (Inr links', s1, t4)"
      and t: "t = PageAttempt page # t2 @ t3 @ t4"
      by (auto simp add: bnd_def emit_def sleep_def split: prod.splits sum.splits)
    from harvest_result [OF h Cons.prems(2)]
    have m: "distinct mid" "set mid = set links \<union> set (added_links t3)"
      "\<forall>u\<in>set (added_links t3). CHR ''?'' \<notin> set u"
      by simp_all
    from Cons.IH [OF p m(1)] m(2,3) show ?thesis
      by (auto simp add: t t2 added_links_append)
  qed
qed

lemma collect_links_result:
  assumes "collect_links d wait pages s = (Inr links, s1, t)"
  shows "distinct links \<and> set links = set (added_links t) \<and>
   (\<forall>u\<in>set links. CHR ''?'' \<notin> set u) \<and> (\<exists>t'. t = ReadResults # t')"
proof -
  from assms obtain mid s2 t2 t3 where
    h: "harvest d wait [] s = (Inr mid, s2, t2)"
    and p: "paginate d wait (py_range 2 (max 2 (pages + 1))) mid s2 = (Inr links, s1, t3)"
    and t: "t = t2 @ t3"
    by (auto simp add: collect_links_def bnd_def split: prod.splits sum.splits)
  from harvest_result [OF h]
  have m: "distinct mid" "set mid = set (added_links t2)"
    "\<forall>u\<in>set (added_links t2). CHR ''?'' \<notin> set u"
    by simp_all
  from harvest_head [OF h] obtain t' where "t2 = ReadResults # t'" by auto
  with paginate_result [OF p m(1)] m(2,3) show ?thesis
    by (auto simp add: t added_links_append)
qed

lemma added_links_pages:
  "set (added_links t) \<subseteq>
     set (added_links (takeWhile (\<lambda>x. x \<noteq> ReadResults) t)) \<union> \<Union> (set ` set (per_page t))"
proof (induction t)
  case Nil
  then show ?case by simp
next
  case (Cons e t)
  then show ?case by (cases e) auto
qed

lemma card_pages:
  "\<forall>p\<in>set pp. card (set p) \<le> K \<Longrightarrow> card (\<Union> (set ` set pp)) \<le> K * length pp"
proof (induction pp)
  case Nil
  then show ?case by simp
next
  case (Cons p pp)
  have "card (set p \<union> \<Union> (set ` set pp)) \<le> card (set p) + card (\<Union> (set ` set pp))"
    by (rule card_Un_le)
  also have "\<dots> \<le> K + K * length pp"
    using Cons by (simp add: add_mono)
  finally show ?case by simp
qed

lemma length_per_page: "length (per_page t) = length (filter (\<lambda>e. e = ReadResults) t)"
  by (induction t) simp_all

text \<open>
  Claim C2.  For every value of \<^verbatim>\<open>pages\<close> and every browser, the list returned by
  \<^verbatim>\<open>collect_links\<close> has no duplicates and none of its members contains a question
  mark.  The pages visited are the \<open>ReadResults\<close> events of the run; when no page
  contributes more than \<open>K\<close> different links, the list has at most \<open>K\<close> times the
  number of pages visited members.
\<close>

theorem collected_links_bounded:
  assumes "collect_links d wait pages s = (Inr links, s1, t)"
  shows "distinct links \<and>
         (\<forall>u\<in>set links. CHR ''?'' \<notin> set u) \<and>
         length (per_page t) = length (filter (\<lambda>e. e = ReadResults) t) \<and>
         ((\<forall>p\<in>set (per_page t). card (set p) \<le> K) \<longrightarrow>
            length links \<le> K * length (per_page t))"
proof -
  from collect_links_result [OF assms] obtain t' where
    r: "distinct links" "set links = set (added_links t)"
    "\<forall>u\<in>set links. CHR ''?'' \<notin> set u" "t = ReadResults # t'"
    by auto
  have "length links \<le> K * length (per_page t)"
    if b: "\<forall>p\<in>set (per_page t). card (set p) \<le> K"
  proof -
    have "set links \<subseteq> \<Union> (set ` set (per_page t))"
      using added_links_pages [of t] r(2,4) by simp
    then have "card (set links) \<le> card (\<Union> (set ` set (per_page t)))"
      by (intro card_mono) auto
    also have "\<dots> \<le> K * length (per_page t)"
      using b by (rule card_pages)
    finally show ?thesis using r(1) by (simp add: distinct_card)
  qed
  with r(1,3) show ?thesis by (simp add: length_per_page)
qed

text \<open>Two pages with 2 and 1 different links give 3 links, within 2 times 2.\<close>

theorem collected_links_bounded_witness:
  "collect_links two_pages 20 3 1 =
     (Inr [''https://www.linkedin.com/jobs/view/103'', ''https://www.linkedin.com/jobs/view/102'',
           ''https://www.linkedin.com/jobs/view/101''],
      2,
      [ReadResults, LinkAdded ''https://www.linkedin.com/jobs/view/101'',
       LinkAdded ''https://www.linkedin.com/jobs/view/102'',
       LinkAdded ''https://www.linkedin.com/jobs/view/101'',
       LinkAdded ''https://www.linkedin.com/jobs/view/101'', PageAttempt 2,
       Click CSS_SELECTOR ''button[aria-label='Page 2']'',
       ReadResults, LinkAdded ''https://www.linkedin.com/jobs/view/103'', PageAttempt 3]) \<and>
   map (\<lambda>p. card (set p)) (per_page (events (collect_links two_pages 20 3 1))) = [2, 1] \<and>
   length [''https://www.linkedin.com/jobs/view/103'', ''https://www.linkedin.com/jobs/view/102'',
           ''https://www.linkedin.com/jobs/view/101''] \<le> 2 * 2"
proof -
  have a: "collect_links two_pages 20 3 1 =
     (Inr [''https://www.linkedin.com/jobs/view/103'', ''https://www.linkedin.com/jobs/view/102'',
           ''https://www.linkedin.com/jobs/view/101''],
      2,
      [ReadResults, LinkAdded ''https://www.linkedin.com/jobs/view/101'',
       LinkAdded ''https://www.linkedin.com/jobs/view/102'',
       LinkAdded ''https://www.linkedin.com/jobs/view/101'',
       LinkAdded ''https://www.linkedin.com/jobs/view/101'', PageAttempt 2,
       Click CSS_SELECTOR ''button[aria-label='Page 2']'',
       ReadResults, LinkAdded ''https://www.linkedin.com/jobs/view/103'', PageAttempt 3])"
    by code_simp
  have b: "map (\<lambda>p. card (set p)) (per_page (events (collect_links two_pages 20 3 1))) = [2, 1]"
    by code_simp
  show ?thesis
    using a b collected_links_bounded [OF a, of 2] by simp
qed

lemma click_page_reads: "click_page d wait sels s = (r, s1, t) \<Longrightarrow> filter (\<lambda>e. e = ReadResults) t = []"
  using emits_filter [OF emits_click_page, of "\<lambda>e. e = ReadResults" d wait sels s]
  by (simp add: events_def)

lemma paginate_append:
  "paginate d wait pre links s = (Inr links1, s1, t1) \<Longrightarrow>
   length (filter (\<lambda>e. e = ReadResults) t1) = length pre \<Longrightarrow>
   paginate d wait (pre @ rest) links s =
     (case paginate d wait rest links1 s1 of (r, s2, t2) \<Rightarrow> (r, s2, t1 @ t2))"
proof (induction pre arbitrary: links s t1)
  case Nil
  then show ?case by (simp add: ret_def split: prod.splits)
next
  case (Cons page pre)
  obtain c s2 t2 where c: "click_page d wait (page_selectors page) s = (Inr c, s2, t2)"
    using no_raise_click_page [of d wait "page_selectors page"]
    by (metis no_raise_def outcome_def prod.collapse)
  then have t2: "filter (\<lambda>e. e = ReadResults) t2 = []" by (rule click_page_reads)
  show ?case
  proof (cases c)
    case False
    with Cons.prems c t2 show ?thesis
      by (auto simp add: bnd_def emit_def ret_def)
  next
    case True
    with Cons.prems(1) c obtain mid s3 t3 t4 where
      h: "harvest d wait links (time_sleep d 1200 s2) = (Inr mid, s3, t3)"
      and p: "paginate d wait pre mid s3 = (Inr links1, s1, t4)"
      and t: "t1 = PageAttempt page # t2 @ t3 @ t4"
      by (auto simp add: bnd_def emit_def sleep_def split: prod.splits sum.splits)
    have t3: "filter (\<lambda>e. e = ReadResults) t3 = [ReadResults]"
      using harvest_reads_once [of d wait links "time_sleep d 1200 s2"] h
      by (simp add: events_def)
    have "length (filter (\<lambda>e. e = ReadResults) t4) = length pre"
      using Cons.prems(2) by (simp add: t t2 t3)
    from Cons.IH [OF p this]
    have "paginate d wait (pre @ rest) mid s3 =
       (case paginate d wait rest links1 s1 of (r, s2, t2) \<Rightarrow> (r, s2, t4 @ t2))" .
    then show ?thesis
      using c True h
      by (simp add: bnd_def emit_def sleep_def t split: prod.splits)
  qed
qed

text \<open>
  Claim C7.  Let \<open>page\<close> be any page number of the loop, that is any member of
  \<^verbatim>\<open>range(2, max(2, pages + 1))\<close>, with \<open>pre\<close> the numbers before it.  When page 1 has
  been read, every page of \<open>pre\<close> has been reached and read (one read for each), and
  neither selector for \<open>page\<close> can be clicked, \<^verbatim>\<open>collect_links\<close> returns normally and
  the later pages are not attempted.  What it returns is, without repetition, exactly
  the links added while reading page 1 and the pages of \<open>pre\<close>: the links of page 1
  are among them, nothing harvested is lost.
\<close>

theorem missing_page_control_ends_collection:
  assumes "py_range 2 (max 2 (pages + 1)) = pre @ page # post"
    and "harvest d wait [] s0 = (Inr first, sa, ta)"
    and "paginate d wait pre first sa = (Inr links, s, t1)"
    and "length (filter (\<lambda>e. e = ReadResults) t1) = length pre"
    and "click_page d wait (page_selectors page) s = (Inr False, s1, t2)"
  shows "collect_links d wait pages s0 = (Inr links, s1, ta @ t1 @ [PageAttempt page]) \<and>
         set first = set (added_links ta) \<and>
         set links = set (added_links ta) \<union> set (added_links t1) \<and>
         set first \<subseteq> set links \<and> distinct links"
proof -
  have "paginate d wait (page # post) links s = (Inr links, s1, [PageAttempt page])"
    using assms(5) by (rule paginate_stops)
  with paginate_append [OF assms(3,4), of "page # post"]
  have "paginate d wait (pre @ page # post) first sa = (Inr links, s1, t1 @ [PageAttempt page])"
    by simp
  then have c: "collect_links d wait pages s0 = (Inr links, s1, ta @ t1 @ [PageAttempt page])"
    using assms(1,2) by (simp add: collect_links_def bnd_def)
  from harvest_result [OF assms(2)]
  have f: "distinct first" "set first = set (added_links ta)" by simp_all
  from paginate_result [OF assms(3) f(1)]
  have l: "distinct links" "set links = set first \<union> set (added_links t1)" by simp_all
  from c f l show ?thesis by auto
qed

text \<open>The scenario of the specification: \<^verbatim>\<open>pages = 3\<close> on a search with two pages and
  no button for page 3 gives the links of both pages.\<close>

theorem missing_page_control_ends_collection_witness:
  "py_range 2 (max 2 (3 + 1)) = [2] @ 3 # [] \<and>
   harvest two_pages 20 [] 1 =
     (Inr [''https://www.linkedin.com/jobs/view/102'', ''https://www.linkedin.com/jobs/view/101''],
      1,
      [ReadResults, LinkAdded ''https://www.linkedin.com/jobs/view/101'',
       LinkAdded ''https://www.linkedin.com/jobs/view/102'',
       LinkAdded ''https://www.linkedin.com/jobs/view/101'',
       LinkAdded ''https://www.linkedin.com/jobs/view/101'']) \<and>
   paginate two_pages 20 [2]
     [''https://www.linkedin.com/jobs/view/102'', ''https://www.linkedin.com/jobs/view/101''] 1 =
     (Inr [''https://www.linkedin.com/jobs/view/103'', ''https://www.linkedin.com/jobs/view/102'',
           ''https://www.linkedin.com/jobs/view/101''],
      2,
      [PageAttempt 2, Click CSS_SELECTOR ''button[aria-label='Page 2']'',
       ReadResults, LinkAdded ''https://www.linkedin.com/jobs/view/103'']) \<and>
   click_page two_pages 20 (page_selectors 3) 2 = (Inr False, 2, []) \<and>
   collect_links two_pages 20 3 1 =
     (Inr [''https://www.linkedin.com/jobs/view/103'', ''https://www.linkedin.com/jobs/view/102'',
           ''https://www.linkedin.com/jobs/view/101''],
      2,
      [ReadResults, LinkAdded ''https://www.linkedin.com/jobs/view/101'',
       LinkAdded ''https://www.linkedin.com/jobs/view/102'',
       LinkAdded ''https://www.linkedin.com/jobs/view/101'',
       LinkAdded ''https://www.linkedin.com/jobs/view/101'',
       PageAttempt 2, Click CSS_SELECTOR ''button[aria-label='Page 2']'',
       ReadResults, LinkAdded ''https://www.linkedin.com/jobs/view/103'', PageAttempt 3])"
proof -
  have r: "py_range 2 (max 2 (3 + 1)) = [2] @ 3 # []"
    by code_simp
  have h: "harvest two_pages 20 [] 1 =
     (Inr [''https://www.linkedin.com/jobs/view/102'', ''https://www.linkedin.com/jobs/view/101''],
      1,
      [ReadResults, LinkAdded ''https://www.linkedin.com/jobs/view/101'',
       LinkAdded ''https://www.linkedin.com/jobs/view/102'',
       LinkAdded ''https://www.linkedin.com/jobs/view/101'',
       LinkAdded ''https://www.linkedin.com/jobs/view/101''])"
    by code_simp
  have p: "paginate two_pages 20 [2]
     [''https://www.linkedin.com/jobs/view/102'', ''https://www.linkedin.com/jobs/view/101''] 1 =
     (Inr [''https://www.linkedin.com/jobs/view/103'', ''https://www.linkedin.com/jobs/view/102'',
           ''https://www.linkedin.com/jobs/view/101''],
      2,
      [PageAttempt 2, Click CSS_SELECTOR ''button[aria-label='Page 2']'',
       ReadResults, LinkAdded ''https://www.linkedin.com/jobs/view/103''])"
    by code_simp
  have c: "click_page two_pages 20 (page_selectors 3) 2 = (Inr False, 2, [])"
    by code_simp
  show ?thesis
    using r h p c missing_page_control_ends_collection [OF r h p _ c] by simp
qed

section \<open>Recovery and the reads of \<^verbatim>\<open>main\<close>\<close>

lemma events_try_finally:
  "events (try_finally m c s) = events (m s) @ events (c (fst (snd (m s))))"
  by (simp add: try_finally_def events_def split: prod.splits sum.splits)

lemma reads_guarded_simps [simp]:
  "reads_guarded []" "reads_guarded (RecoveryCall n # t)"
  by (simp_all add: reads_guarded_def is_recovery_call_def)

lemma reads_guarded_append:
  "filter (\<lambda>e. e = ReadResults) t1 = [] \<Longrightarrow> reads_guarded t2 \<Longrightarrow> reads_guarded (t1 @ t2)"
  by (induction t1) (auto simp add: reads_guarded_def split: if_splits)

lemma reads_guarded_snoc:
  "reads_guarded t \<Longrightarrow> e \<noteq> ReadResults \<Longrightarrow> reads_guarded (t @ [e])"
  by (induction t) (auto simp add: reads_guarded_def split: if_splits)

lemma recovery_head:
  "\<exists>t. events (clear_signin_overlay_or_reauth d wait search_url user pwd n s) = RecoveryCall n # t"
  by (subst clear_signin_overlay_or_reauth.simps) (simp add: events_emit_bnd)

lemma no_reads:
  "filter (\<lambda>e. e = ReadResults) (events (login d wait user pwd s)) = []"
  "filter (\<lambda>e. e = ReadResults) (events (nav d u s)) = []"
  by (rule emits_filter, (rule emits_login emits_nav; simp))+

lemma reads_guarded_main_try:
  "reads_guarded (events (main_try d wait search_url user pwd pages s))"
proof -
  have rc: "reads_guarded (events (clear_signin_overlay_or_reauth d wait search_url user pwd 1 s') @ t)"
    for s' t
    using recovery_head [of d wait search_url user pwd 1 s'] by auto
  show ?thesis
    unfolding main_try_def
    apply (subst events_bnd)
    apply (rule reads_guarded_append)
     apply (rule no_reads)
    apply (simp split: sum.splits)
    apply (intro allI impI)
    apply (subst events_bnd)
    apply (rule reads_guarded_append)
     apply (rule no_reads)
    apply (simp split: sum.splits)
    apply (intro allI impI)
    apply (subst events_bnd)
    apply simp
    apply (subst events_bnd)
    apply (rule rc)
    done
qed

lemma emits_if:
  "(c \<Longrightarrow> emits P a) \<Longrightarrow> (\<not> c \<Longrightarrow> emits P b) \<Longrightarrow> emits P (if c then a else b)"
  by simp

lemma emits_clear:
  assumes "\<And>n. P (RecoveryCall n)" "\<And>r. P (OverlayCheck r)" "\<And>b sel. P (Click b sel)"
    "P LoginCall" "\<And>u. P (Nav u)" "P EscapeSent"
  shows "emits P (clear_signin_overlay_or_reauth d wait search_url user pwd n)"
proof (induction d wait search_url user pwd n rule: clear_signin_overlay_or_reauth.induct)
  case (1 d wait search_url user pwd attempts)
  have ih: "emits P (clear_signin_overlay_or_reauth d wait search_url user pwd (attempts - 1))"
    if "0 < attempts"
    using "1.IH" [of True False True True] that by simp
  show ?case
    apply (subst clear_signin_overlay_or_reauth.simps)
    apply (intro emits_bnd emits_if emits_is_authwall_modal emits_dismiss_loop
        emits_click_sign_in emits_login emits_nav emits_try_except emits_basic)
                        apply (simp_all add: assms ih)
    done
qed

lemma emits_scrape_job:
  "(\<And>u. P (ScrapeCall u)) \<Longrightarrow> (\<And>u. P (Nav u)) \<Longrightarrow> (\<And>b sel. P (Click b sel)) \<Longrightarrow>
   emits P (scrape_job d wait u)"
  unfolding scrape_job_def
  by (intro emits_bnd emits_try_except emits_scrape_job_try) (simp_all split: exn.splits)

lemma emits_scrape_all:
  "(\<And>u. P (ScrapeCall u)) \<Longrightarrow> (\<And>u. P (Nav u)) \<Longrightarrow> (\<And>b sel. P (Click b sel)) \<Longrightarrow>
   emits P (scrape_all d wait links records)"
  by (induction links arbitrary: records) (auto intro!: emits_bnd emits_scrape_job)


lemma main_try_ordered:
  assumes lg: "login d wait user pwd s = (Inr (), s1, t1)"
    and nv: "drv_get d search_url s1 = (Inr (), s2)"
  shows "\<exists>rest. events (main_try d wait search_url user pwd pages s) =
           t1 @ Nav search_url #
           events (clear_signin_overlay_or_reauth d wait search_url user pwd 1
                     (time_sleep d 1000 s2)) @ rest \<and>
         filter (\<lambda>e. is_recovery_call e \<or> is_overlay_check e \<or> e = LoginCall) rest = []"
proof -
  let ?after = "bnd (collect_links d wait pages) (\<lambda>links. scrape_all d wait links [])"
  have quiet: "filter (\<lambda>e. is_recovery_call e \<or> is_overlay_check e \<or> e = LoginCall)
      (events (?after s')) = []" for s'
    by (rule emits_filter)
       (intro emits_bnd emits_collect_links emits_scrape_all;
        simp add: is_recovery_call_def is_overlay_check_def)
  have nav: "nav d search_url s1 = (Inr (), s2, [Nav search_url])"
    using nv by (simp add: nav_def bnd_def emit_def prim_def)
  obtain rc s4 tcl where cl:
    "clear_signin_overlay_or_reauth d wait search_url user pwd 1 (time_sleep d 1000 s2) =
       (rc, s4, tcl)"
    by (metis prod.exhaust)
  show ?thesis
  proof (cases rc)
    case (Inl e)
    have "events (main_try d wait search_url user pwd pages s) = t1 @ Nav search_url # tcl @ []"
      by (simp add: main_try_def bnd_def lg nav sleep_def cl Inl events_def)
    then show ?thesis by (simp add: cl events_def)
  next
    case (Inr u)
    obtain r5 s5 t5 where af: "?after s4 = (r5, s5, t5)"
      by (metis prod.exhaust)
    have "events (main_try d wait search_url user pwd pages s) = t1 @ Nav search_url # tcl @ t5"
      using af by (simp add: main_try_def bnd_def lg nav sleep_def cl Inr events_def)
    moreover have "filter (\<lambda>e. is_recovery_call e \<or> is_overlay_check e \<or> e = LoginCall) t5 = []"
      using quiet [of s4] af by (simp add: events_def)
    ultimately show ?thesis by (simp add: cl events_def)
  qed
qed

lemma recovery_reads:
  "filter (\<lambda>e. e = ReadResults)
     (events (clear_signin_overlay_or_reauth d wait search_url user pwd n s)) = []"
  by (rule emits_filter) (rule emits_clear; simp)

text \<open>
  Claim C1, as amended.  In a run of \<^verbatim>\<open>main\<close> in which \<^verbatim>\<open>login\<close> and the opening of
  the search page return without raising, the events are, in this order: those of
  \<^verbatim>\<open>login\<close>, the navigation to the search URL, the call of
  \<^verbatim>\<open>clear_signin_overlay_or_reauth\<close> with budget 1 and what that call does, and the
  rest of the run.  No results are read up to the end of that call, and the rest of the
  run holds no call of the recovery function, no check of the overlay and no
  \<^verbatim>\<open>login\<close>.  In every run, no results are read before a first recovery call.
  \<^verbatim>\<open>collect_links\<close> itself, for every browser and every number of pages, never calls
  the recovery function, nor \<^verbatim>\<open>is_authwall_modal\<close>, nor \<^verbatim>\<open>login\<close>: after a pagination
  click the new page is read with no recovery step in between.
\<close>

theorem recovery_precedes_first_read_only:
  "reads_guarded (events (main d search_url user pwd pages s)) \<and>
   filter (\<lambda>e. is_recovery_call e \<or> is_overlay_check e \<or> e = LoginCall)
     (events (collect_links d wait pages s')) = [] \<and>
   (login d 20 user pwd s = (Inr (), s1, t1) \<and> drv_get d search_url s1 = (Inr (), s2) \<longrightarrow>
      (\<exists>tc rest.
         events (clear_signin_overlay_or_reauth d 20 search_url user pwd 1
                   (time_sleep d 1000 s2)) = RecoveryCall 1 # tc \<and>
         events (main d search_url user pwd pages s) =
           t1 @ Nav search_url # RecoveryCall 1 # tc @ rest \<and>
         filter (\<lambda>e. e = ReadResults) (t1 @ Nav search_url # RecoveryCall 1 # tc) = [] \<and>
         filter (\<lambda>e. is_recovery_call e \<or> is_overlay_check e \<or> e = LoginCall) rest = []))"
proof (intro conjI impI)
  have m: "events (main d search_url user pwd pages s) =
          events (main_try d 20 search_url user pwd pages s) @ [QuitCall]"
    by (simp add: main_def events_try_finally events_emit_bnd)
  then show "reads_guarded (events (main d search_url user pwd pages s))"
    using reads_guarded_main_try [of d 20 search_url user pwd pages s]
    by (simp add: reads_guarded_snoc)
  have "emits (\<lambda>e. \<not> (is_recovery_call e \<or> is_overlay_check e \<or> e = LoginCall))
          (collect_links d wait pages)"
    by (rule emits_collect_links) (simp_all add: is_recovery_call_def is_overlay_check_def)
  then show "filter (\<lambda>e. is_recovery_call e \<or> is_overlay_check e \<or> e = LoginCall)
     (events (collect_links d wait pages s')) = []"
    by (rule emits_filter)
  assume a: "login d 20 user pwd s = (Inr (), s1, t1) \<and> drv_get d search_url s1 = (Inr (), s2)"
  then have lg: "login d 20 user pwd s = (Inr (), s1, t1)"
    and nv: "drv_get d search_url s1 = (Inr (), s2)" by simp_all
  from main_try_ordered [OF lg nv, of pages] obtain rest where
    r: "events (main_try d 20 search_url user pwd pages s) =
           t1 @ Nav search_url #
           events (clear_signin_overlay_or_reauth d 20 search_url user pwd 1
                     (time_sleep d 1000 s2)) @ rest"
    and q: "filter (\<lambda>e. is_recovery_call e \<or> is_overlay_check e \<or> e = LoginCall) rest = []"
    by auto
  obtain tc where tc: "events (clear_signin_overlay_or_reauth d 20 search_url user pwd 1
                   (time_sleep d 1000 s2)) = RecoveryCall 1 # tc"
    using recovery_head [of d 20 search_url user pwd 1 "time_sleep d 1000 s2"] by auto
  have t1: "filter (\<lambda>e. e = ReadResults) t1 = []"
    using no_reads(1) [of d 20 user pwd s] lg by (simp add: events_def)
  have tcr: "filter (\<lambda>e. e = ReadResults) tc = []"
    using recovery_reads [of d 20 search_url user pwd 1 "time_sleep d 1000 s2"] tc by simp
  have "events (main d search_url user pwd pages s) =
           t1 @ Nav search_url # RecoveryCall 1 # tc @ (rest @ [QuitCall])"
    by (simp add: m r tc)
  moreover have "filter (\<lambda>e. is_recovery_call e \<or> is_overlay_check e \<or> e = LoginCall)
      (rest @ [QuitCall]) = []"
    using q by (simp add: is_recovery_call_def is_overlay_check_def)
  moreover have "filter (\<lambda>e. e = ReadResults) (t1 @ Nav search_url # RecoveryCall 1 # tc) = []"
    using t1 tcr by simp
  ultimately show "\<exists>tc rest.
         events (clear_signin_overlay_or_reauth d 20 search_url user pwd 1
                   (time_sleep d 1000 s2)) = RecoveryCall 1 # tc \<and>
         events (main d search_url user pwd pages s) =
           t1 @ Nav search_url # RecoveryCall 1 # tc @ rest \<and>
         filter (\<lambda>e. e = ReadResults) (t1 @ Nav search_url # RecoveryCall 1 # tc) = [] \<and>
         filter (\<lambda>e. is_recovery_call e \<or> is_overlay_check e \<or> e = LoginCall) rest = []"
    using tc by (intro exI [of _ tc] exI [of _ "rest @ [QuitCall]"]) simp
qed

text \<open>
  Claim C1 as stated has a recovery call before every read.  On the search with two
  pages, the run of \<^verbatim>\<open>main\<close> with \<^verbatim>\<open>pages = 2\<close> clicks the button of page 2 and reads
  the results of that page at once; the only recovery call is the one made before the
  first page.
\<close>

theorem no_recovery_after_pagination:
  "events (main two_pages search ''u'' ''p'' 2 0) =
     [LoginCall, Nav login_url, Nav search, RecoveryCall 1, OverlayCheck False,
      ReadResults, LinkAdded ''https://www.linkedin.com/jobs/view/101'',
      LinkAdded ''https://www.linkedin.com/jobs/view/102'',
      LinkAdded ''https://www.linkedin.com/jobs/view/101'',
      LinkAdded ''https://www.linkedin.com/jobs/view/101'',
      PageAttempt 2, Click CSS_SELECTOR ''button[aria-label='Page 2']'',
      ReadResults, LinkAdded ''https://www.linkedin.com/jobs/view/103'',
      ScrapeCall ''https://www.linkedin.com/jobs/view/103'',
      Nav ''https://www.linkedin.com/jobs/view/103'',
      ScrapeCall ''https://www.linkedin.com/jobs/view/102'',
      Nav ''https://www.linkedin.com/jobs/view/102'',
      ScrapeCall ''https://www.linkedin.com/jobs/view/101'',
      Nav ''https://www.linkedin.com/jobs/view/101'', QuitCall] \<and>
   \<not> recovery_before_reads False (events (main two_pages search ''u'' ''p'' 2 0))"
  by code_simp

text \<open>On the same run: \<^verbatim>\<open>login\<close> and the navigation return, and the recovery call
  follows the navigation to the search page.\<close>

theorem recovery_precedes_first_read_only_witness:
  "login two_pages 20 ''u'' ''p'' 0 = (Inr (), 0, [LoginCall, Nav login_url]) \<and>
   drv_get two_pages search 0 = (Inr (), 1) \<and>
   reads_guarded (events (main two_pages search ''u'' ''p'' 2 0)) \<and>
   filter (\<lambda>e. is_recovery_call e \<or> is_overlay_check e \<or> e = LoginCall)
     (events (collect_links two_pages 20 2 1)) = [] \<and>
   (\<exists>tc rest.
      events (main two_pages search ''u'' ''p'' 2 0) =
        [LoginCall, Nav login_url] @ Nav search # RecoveryCall 1 # tc @ rest \<and>
      filter (\<lambda>e. is_recovery_call e \<or> is_overlay_check e \<or> e = LoginCall) rest = [])"
proof -
  have a: "login two_pages 20 ''u'' ''p'' 0 = (Inr (), 0, [LoginCall, Nav login_url])"
    by code_simp
  have b: "drv_get two_pages search 0 = (Inr (), 1)"
    by code_simp
  show ?thesis
    using a b recovery_precedes_first_read_only [of two_pages search "''u''" "''p''" 2 0 20 1 0 "[LoginCall, Nav login_url]" 1]
    by auto
qed

end
